(* ===== verification/Pollen_Prelude.thy ===== *)
theory Pollen_Prelude
  imports Main "HOL-Library.Word"
begin

text \<open>
  Shared vocabulary of the pollen development: the Go integer type as the model sees it,
  the signed 64-bit range of Go's \<open>int\<close> on the 64-bit targets the service is built for,
  and the generic facts about the ``error latch'' idiom that the source uses in both of its
  nested \<open>Each\<close> callbacks (once an error variable is set, every later call returns
  immediately and the accumulated slice is left alone).
\<close>

named_theorems pollen_simps "facts about the shared vocabulary used by the component proofs"

type_synonym go_int = int

text \<open>A timestamp (\<open>time.Time\<close> of \<open>cacheTimestamp\<close>) is modelled as a count of ticks.\<close>

type_synonym time = nat

definition int64_min :: int where
  "int64_min = - (2 ^ 63)"

definition int64_max :: int where
  "int64_max = 2 ^ 63 - 1"

definition in_int64 :: "int \<Rightarrow> bool" where
  "in_int64 v \<longleftrightarrow> int64_min \<le> v \<and> v \<le> int64_max"

text \<open>
  A callback \<open>f\<close> over a state \<open>(err, acc)\<close> \<^emph>\<open>latches\<close> when it is the identity on
  every state whose error is set.
\<close>

definition latches :: "('e option \<times> 'a \<Rightarrow> 'x \<Rightarrow> 'e option \<times> 'a) \<Rightarrow> bool" where
  "latches f \<longleftrightarrow> (\<forall>e acc x. f (Some e, acc) x = (Some e, acc))"

lemma in_int64_iff [pollen_simps]:
  "in_int64 v \<longleftrightarrow> - (2 ^ 63) \<le> v \<and> v < 2 ^ 63"
  by (auto simp: in_int64_def int64_min_def int64_max_def)

lemma in_int64_sint [pollen_simps]: "in_int64 (sint (w :: 64 word))"
  using sint_ge [of w] sint_lt [of w] by (simp add: in_int64_iff)

lemma sint_word_of_int_int64 [pollen_simps]:
  "in_int64 v \<Longrightarrow> sint (word_of_int v :: 64 word) = v"
  by (simp add: in_int64_iff sint_sbintrunc' signed_take_bit_int_eq_self)

subsection \<open>The error latch of the \<open>Each\<close> callbacks\<close>

text \<open>A left fold of a latching callback from an error state does nothing.\<close>

lemma foldl_latched [pollen_simps]:
  "latches f \<Longrightarrow> foldl f (Some e, acc) xs = (Some e, acc)"
  by (induction xs) (auto simp: latches_def)

lemma foldl_latch_append:
  "latches f \<Longrightarrow> foldl f st (xs @ ys) = (case foldl f st xs of
      (Some e, acc) \<Rightarrow> (Some e, acc) | (None, acc) \<Rightarrow> foldl f (None, acc) ys)"
  by (cases "foldl f st xs") (auto simp: foldl_latched split: option.splits)

subsection \<open>Threads as a list of program counters\<close>

text \<open>Goroutines are numbered by their position in a list of program counters; a step
  updates one position. Counting the positions that satisfy a predicate is how the lock
  counters are related to the program counters.\<close>

lemma length_filter_update [pollen_simps]:
  "i < length xs \<Longrightarrow>
     length (filter P (xs[i := y])) + (if P (xs ! i) then 1 else 0) =
     length (filter P xs) + (if P y then 1 else 0)"
proof (induction xs arbitrary: i)
  case Nil
  then show ?case by simp
next
  case (Cons x xs)
  then show ?case by (cases i) auto
qed

lemma length_filter_update_eq [pollen_simps]:
  "i < length xs \<Longrightarrow>
     length (filter P (xs[i := y])) =
     length (filter P xs) + (if P y then 1 else 0) - (if P (xs ! i) then 1 else 0)"
  using length_filter_update [of i xs P y] by simp

lemma in_set_update_cases:
  "z \<in> set (xs[i := y]) \<Longrightarrow> z = y \<or> (\<exists>j < length xs. j \<noteq> i \<and> xs ! j = z)"
proof -
  assume "z \<in> set (xs[i := y])"
  then obtain k where k: "k < length xs" "xs[i := y] ! k = z" by (auto simp: in_set_conv_nth)
  show ?thesis
  proof (cases "k = i")
    case True
    with k show ?thesis by simp
  next
    case False
    with k show ?thesis by auto
  qed
qed

lemma filter_le1_unique:
  assumes "length (filter P xs) \<le> 1" and "i < length xs" and "j < length xs"
    and "P (xs ! i)" and "P (xs ! j)"
  shows "i = j"
proof (rule ccontr)
  assume ne: "i \<noteq> j"
  have "length (filter P xs) = card {k. k < length xs \<and> P (xs ! k)}"
    by (rule length_filter_conv_card)
  moreover have "{i, j} \<subseteq> {k. k < length xs \<and> P (xs ! k)}"
    using assms by auto
  then have "card {i, j} \<le> card {k. k < length xs \<and> P (xs ! k)}"
    by (rule card_mono [rotated]) simp
  ultimately show False using ne assms(1) by simp
qed

end
