(* ===== verification/Dom.thy ===== *)
theory Dom
  imports Pollen_Prelude "HOL-Library.Sublist"
begin

text \<open>
  The part of the HTML document model and of the goquery/cascadia selection API that the
  extractor calls: a parsed document is a forest of element and text nodes; a selector is a
  descendant chain of simple selectors (a tag name with an optional class); \<open>Find\<close> returns
  the matching proper descendants in document order (pre-order), \<open>First\<close> and
  \<open>Last\<close> keep at most one node, \<open>Length\<close> counts, and \<open>Text\<close> concatenates the text
  nodes below every selected node. \<open>First\<close>, \<open>Last\<close> and \<open>Text\<close> on an empty
  selection give the empty selection and the empty string, as goquery does.
\<close>

datatype node =
    Element string "string list" "node list"   \<comment> \<open>tag name, classes, children\<close>
  | TextNode string

type_synonym document = "node list"

datatype simple_sel = Sel string "string option"   \<comment> \<open>tag name, optional class\<close>

text \<open>\<open>Desc [a1, ..., ak] s\<close> is the selector \<open>a1 a2 ... ak s\<close>: an \<open>s\<close> node with
  ancestors matching \<open>a1\<close>, ..., \<open>ak\<close> in this order from the root.\<close>

datatype selector = Desc "simple_sel list" simple_sel

fun text_of :: "node \<Rightarrow> string" where
  "text_of (TextNode s) = s"
| "text_of (Element tag cls children) = concat (map text_of children)"

fun simple_match :: "simple_sel \<Rightarrow> node \<Rightarrow> bool" where
  "simple_match (Sel t c) (Element tag cls children) =
     (t = tag \<and> (case c of None \<Rightarrow> True | Some k \<Rightarrow> k \<in> set cls))"
| "simple_match s (TextNode x) = False"

text \<open>
  The descendant combinator asks for \<^emph>\<open>some\<close> chain of ancestors, one per simple selector,
  in order. Matching it greedily from the root is enough (lemma
  \<open>ancestors_match_iff\<close> below).
\<close>

fun ancestors_match :: "simple_sel list \<Rightarrow> node list \<Rightarrow> bool" where
  "ancestors_match [] anc = True"
| "ancestors_match (s # ss) [] = False"
| "ancestors_match (s # ss) (a # as) =
     (if simple_match s a then ancestors_match ss as else ancestors_match (s # ss) as)"

fun sel_match :: "selector \<Rightarrow> node list \<Rightarrow> node \<Rightarrow> bool" where
  "sel_match (Desc up s) anc n = (simple_match s n \<and> ancestors_match up anc)"

text \<open>\<open>find_forest sel anc ns\<close>: the nodes of the forest \<open>ns\<close> (whose common ancestors
  are \<open>anc\<close>, root first) matching \<open>sel\<close>, in pre-order.\<close>

fun find_forest :: "selector \<Rightarrow> node list \<Rightarrow> node list \<Rightarrow> node list" where
  "find_forest sel anc [] = []"
| "find_forest sel anc (TextNode t # ns) = find_forest sel anc ns"
| "find_forest sel anc (Element tag cls cs # ns) =
     (if sel_match sel anc (Element tag cls cs) then [Element tag cls cs] else []) @
     find_forest sel (anc @ [Element tag cls cs]) cs @ find_forest sel anc ns"

text \<open>\<open>doc.Find(sel)\<close> on the document root.\<close>

definition find_doc :: "selector \<Rightarrow> document \<Rightarrow> node list" where
  "find_doc sel doc = find_forest sel [] doc"

text \<open>\<open>selection.Find(s)\<close> for a single node and a selector of one simple selector: the
  proper descendants of the node that match.\<close>

fun find_local :: "simple_sel \<Rightarrow> node \<Rightarrow> node list" where
  "find_local s (Element tag cls cs) = find_forest (Desc [] s) [] cs"
| "find_local s (TextNode t) = []"

definition sel_first :: "node list \<Rightarrow> node list" where
  "sel_first ns = take 1 ns"

definition sel_last :: "node list \<Rightarrow> node list" where
  "sel_last ns = (case ns of [] \<Rightarrow> [] | _ \<Rightarrow> [last ns])"

definition sel_text :: "node list \<Rightarrow> string" where
  "sel_text ns = concat (map text_of ns)"

lemmas dom_defs = sel_first_def sel_last_def sel_text_def find_doc_def

subsection \<open>Facts about selections\<close>

lemma sel_text_first [simp]:
  "sel_text (sel_first []) = []"
  "sel_text (sel_first (n # ns)) = text_of n"
  by (simp_all add: dom_defs)

lemma sel_text_last [simp]:
  "sel_text (sel_last []) = []"
  "ns \<noteq> [] \<Longrightarrow> sel_text (sel_last ns) = text_of (last ns)"
  by (auto simp: dom_defs split: list.splits)

lemma sel_text_single [simp]: "sel_text [n] = text_of n"
  by (simp add: sel_text_def)

text \<open>A selector without ancestor part does not look at the ancestors: the \<open>Find\<close> of a
  nested selection gives the same nodes wherever the selection sits in the document.\<close>

lemma find_forest_anc_free_gen:
  "sel = Desc [] s \<Longrightarrow> find_forest sel anc ns = find_forest sel anc' ns"
proof (induction sel anc ns arbitrary: anc' rule: find_forest.induct)
  case (3 sel anc tag cls cs ns)
  show ?case
    using "3.IH"(1) [OF "3.prems", of "anc' @ [Element tag cls cs]"]
      "3.IH"(2) [OF "3.prems", of anc'] "3.prems" by simp
qed simp_all

lemma find_forest_anc_free:
  "find_forest (Desc [] s) anc ns = find_forest (Desc [] s) anc' ns"
  by (rule find_forest_anc_free_gen) (rule refl)

lemma find_forest_append [simp]:
  "find_forest sel anc (xs @ ys) = find_forest sel anc xs @ find_forest sel anc ys"
  by (induction xs rule: find_forest.induct [of _ sel anc]) auto

lemma find_forest_subset:
  "set (find_forest sel anc ns) \<subseteq> {n. \<exists>a. sel_match sel a n}"
  by (induction sel anc ns rule: find_forest.induct) auto

text \<open>Greedy matching of the ancestor chain agrees with the declarative reading of the
  descendant combinator: some subsequence of the ancestors matches the simple selectors
  one by one.\<close>

lemma subseq_match_Cons_hit:
  assumes "simple_match s a"
  shows "(\<exists>sub. subseq sub (a # as) \<and> list_all2 simple_match (s # ss) sub)
      \<longleftrightarrow> (\<exists>sub. subseq sub as \<and> list_all2 simple_match ss sub)"
proof
  assume "\<exists>sub. subseq sub (a # as) \<and> list_all2 simple_match (s # ss) sub"
  then obtain b sub where sb: "subseq (b # sub) (a # as)" "list_all2 simple_match ss sub"
    by (auto simp: list_all2_Cons1)
  from sb(1) have "subseq sub as"
    by (auto simp: subseq_Cons2_iff split: if_splits dest: subseq_Cons')
  with sb(2) show "\<exists>sub. subseq sub as \<and> list_all2 simple_match ss sub" by blast
next
  assume "\<exists>sub. subseq sub as \<and> list_all2 simple_match ss sub"
  then obtain sub where "subseq sub as" "list_all2 simple_match ss sub" by blast
  with assms show "\<exists>sub. subseq sub (a # as) \<and> list_all2 simple_match (s # ss) sub"
    by (intro exI [of _ "a # sub"]) simp
qed

lemma subseq_match_Cons_skip:
  assumes "\<not> simple_match s a"
  shows "(\<exists>sub. subseq sub (a # as) \<and> list_all2 simple_match (s # ss) sub)
      \<longleftrightarrow> (\<exists>sub. subseq sub as \<and> list_all2 simple_match (s # ss) sub)"
proof
  assume "\<exists>sub. subseq sub (a # as) \<and> list_all2 simple_match (s # ss) sub"
  then obtain b sub where sb: "subseq (b # sub) (a # as)" "simple_match s b"
      "list_all2 simple_match ss sub"
    by (auto simp: list_all2_Cons1)
  with assms have "b \<noteq> a" by auto
  with sb(1) have "subseq (b # sub) as" by (simp add: subseq_Cons2_iff)
  with sb(2,3) show "\<exists>sub. subseq sub as \<and> list_all2 simple_match (s # ss) sub" by auto
next
  assume "\<exists>sub. subseq sub as \<and> list_all2 simple_match (s # ss) sub"
  then show "\<exists>sub. subseq sub (a # as) \<and> list_all2 simple_match (s # ss) sub"
    by (auto intro: list_emb_Cons)
qed

lemma ancestors_match_iff:
  "ancestors_match ss anc \<longleftrightarrow> (\<exists>sub. subseq sub anc \<and> list_all2 simple_match ss sub)"
proof (induction ss anc rule: ancestors_match.induct)
  case (1 anc)
  then show ?case by auto
next
  case (2 s ss)
  then show ?case by (auto simp: list_all2_Cons1)
next
  case (3 s ss a as)
  then show ?case
    by (cases "simple_match s a") (simp_all add: subseq_match_Cons_hit subseq_match_Cons_skip)
qed

end
