(* ===== verification/Atoi.thy ===== *)
theory Atoi
  imports Pollen_Prelude
begin

text \<open>
  Go's \<open>strconv.Atoi\<close> for the 64-bit \<open>int\<close> of the service's targets, which the
  extractor calls on every measurement value that is not the placeholder \<open>"-"\<close>.
  \<open>Atoi\<close> has a fast path for strings of 1 to 18 bytes (an optional sign, then digits,
  accumulated in a wrapping 64-bit \<open>int\<close>, each byte shifted by \<open>'0'\<close> in a wrapping
  byte) and otherwise calls \<open>ParseInt(s, 10, 0)\<close>, which strips the sign and calls
  \<open>ParseUint\<close>; \<open>ParseUint\<close> accumulates in a \<open>uint64\<close> and detects overflow with
  the cutoff \<open>maxUint64/10 + 1\<close> and the wrap test \<open>n1 < n\<close>. Go returns a value and
  an error together; the model returns the pair, with \<open>None\<close> for a nil error. Strings
  are byte strings (\<open>char\<close> is a byte).
\<close>

datatype num_error_kind = ErrSyntax | ErrRange

text \<open>\<open>*strconv.NumError\<close>: the function name, the input, and the kind of error.\<close>

datatype num_error = NumError string string num_error_kind

subsection \<open>Digits\<close>

definition is_digit :: "char \<Rightarrow> bool" where
  "is_digit c \<longleftrightarrow> 48 \<le> (of_char c :: nat) \<and> (of_char c :: nat) \<le> 57"

definition digit_val :: "char \<Rightarrow> nat" where
  "digit_val c = of_char c - 48"

subsection \<open>ParseUint and ParseInt, base 10, 64 bits\<close>

definition uint64_max :: "64 word" where
  "uint64_max = - 1"

definition uint64_cutoff :: "64 word" where
  "uint64_cutoff = uint64_max div 10 + 1"

text \<open>The digit loop of \<open>ParseUint\<close>. For base 10 the letter branch of the source
  and its test \<open>d >= base\<close> together reject every byte that is not a digit.\<close>

fun parse_uint_digits :: "64 word \<Rightarrow> string \<Rightarrow> 64 word \<times> num_error_kind option" where
  "parse_uint_digits n [] = (n, None)"
| "parse_uint_digits n (c # cs) =
     (if \<not> is_digit c then (0, Some ErrSyntax)
      else if n \<ge> uint64_cutoff then (uint64_max, Some ErrRange)
      else (let n' = n * 10; n1 = n' + word_of_nat (digit_val c) in
            if n1 < n' \<or> n1 > uint64_max then (uint64_max, Some ErrRange)
            else parse_uint_digits n1 cs))"

definition parse_uint :: "string \<Rightarrow> 64 word \<times> num_error_kind option" where
  "parse_uint s = (if s = [] then (0, Some ErrSyntax) else parse_uint_digits 0 s)"

definition int64_cutoff :: "64 word" where
  "int64_cutoff = 2 ^ 63"

definition split_sign :: "string \<Rightarrow> bool \<times> string" where
  "split_sign s = (case s of
      c # r \<Rightarrow> if c = CHR ''+'' then (False, r) else if c = CHR ''-'' then (True, r) else (False, s)
    | [] \<Rightarrow> (False, s))"

definition parse_int :: "string \<Rightarrow> go_int \<times> num_error_kind option" where
  "parse_int s0 =
     (if s0 = [] then (0, Some ErrSyntax)
      else (case split_sign s0 of (neg, s) \<Rightarrow>
        (case parse_uint s of (un, err) \<Rightarrow>
          if err \<noteq> None \<and> err \<noteq> Some ErrRange then (0, err)
          else if \<not> neg \<and> un \<ge> int64_cutoff then (sint (int64_cutoff - 1), Some ErrRange)
          else if neg \<and> un > int64_cutoff then (sint (- int64_cutoff), Some ErrRange)
          else (sint (if neg then - un else un), None))))"

subsection \<open>Atoi\<close>

text \<open>The fast path's digit loop: \<open>ch -= '0'\<close> on a byte, \<open>ch > 9\<close> rejects,
  \<open>n = n*10 + int(ch)\<close> on a 64-bit \<open>int\<close>.\<close>

fun atoi_digits :: "64 word \<Rightarrow> string \<Rightarrow> 64 word option" where
  "atoi_digits n [] = Some n"
| "atoi_digits n (c # cs) =
     (let ch = (of_char c :: 8 word) - 48 in
      if ch > 9 then None else atoi_digits (n * 10 + ucast ch) cs)"

definition atoi_fast :: "string \<Rightarrow> go_int \<times> num_error option" where
  "atoi_fast s0 =
     (let sgn = (case s0 of c # r \<Rightarrow> c = CHR ''-'' \<or> c = CHR ''+'' | [] \<Rightarrow> False);
          neg = (case s0 of c # r \<Rightarrow> c = CHR ''-'' | [] \<Rightarrow> False);
          s = (if sgn then tl s0 else s0)
      in if sgn \<and> s = [] then (0, Some (NumError ''Atoi'' s0 ErrSyntax))
         else (case atoi_digits 0 s of
                 None \<Rightarrow> (0, Some (NumError ''Atoi'' s0 ErrSyntax))
               | Some n \<Rightarrow> (sint (if neg then - n else n), None)))"

definition Atoi :: "string \<Rightarrow> go_int \<times> num_error option" where
  "Atoi s =
     (if 0 < length s \<and> length s < 19 then atoi_fast s
      else (case parse_int s of (i, err) \<Rightarrow> (i, map_option (NumError ''Atoi'' s) err)))"

subsection \<open>Reference: decimal integer literals\<close>

definition dec_from :: "nat \<Rightarrow> string \<Rightarrow> nat" where
  "dec_from a s = foldl (\<lambda>n c. 10 * n + digit_val c) a s"

definition all_digits :: "string \<Rightarrow> bool" where
  "all_digits s \<longleftrightarrow> s \<noteq> [] \<and> (\<forall>c \<in> set s. is_digit c)"

definition int_syntax :: "string \<Rightarrow> bool" where
  "int_syntax s = all_digits (snd (split_sign s))"

definition int_value :: "string \<Rightarrow> int" where
  "int_value s = (case split_sign s of (neg, r) \<Rightarrow>
     if neg then - int (dec_from 0 r) else int (dec_from 0 r))"

text \<open>The decimal printer of the standard library (\<open>strconv.FormatInt(v, 10)\<close>), used
  to state the parse/print round trip.\<close>

fun decimal :: "nat \<Rightarrow> string" where
  "decimal n = (if n < 10 then [char_of (48 + n)] else decimal (n div 10) @ [char_of (48 + n mod 10)])"

declare decimal.simps [simp del]

definition format_int :: "int \<Rightarrow> string" where
  "format_int v = (if v < 0 then CHR ''-'' # decimal (nat (- v)) else decimal (nat v))"

subsection \<open>Digits and the decimal value\<close>

lemma digit_val_lt: "is_digit c \<Longrightarrow> digit_val c < 10"
  unfolding is_digit_def digit_val_def by linarith

lemma byte_digit_test: "((of_char c :: 8 word) - 48 > 9) \<longleftrightarrow> \<not> is_digit c"
proof -
  define k where "k = (of_char c :: nat)"
  have k: "k < 256" by (simp add: k_def)
  have w: "(of_char c :: 8 word) = word_of_nat k" by (simp add: k_def of_nat_of_char)
  show ?thesis
  proof (cases "48 \<le> k")
    case True
    then have "(word_of_nat k :: 8 word) - 48 = word_of_nat (k - 48)"
      by (simp add: of_nat_diff)
    moreover have "unat (word_of_nat (k - 48) :: 8 word) = k - 48"
      using k by (simp add: unat_of_nat)
    ultimately show ?thesis using True
      by (simp add: w is_digit_def k_def[symmetric] word_less_nat_alt) arith
  next
    case False
    then have eq: "(word_of_nat k :: 8 word) - 48 = word_of_nat (k + 208)"
      by (simp add: word_of_nat_eq_iff)
    have "unat ((word_of_nat k :: 8 word) - 48) = unat (word_of_nat (k + 208) :: 8 word)"
      by (simp only: eq)
    also have "\<dots> = (k + 208) mod 2 ^ 8"
        by (simp add: unat_of_nat del: of_nat_add)
    also have "\<dots> = k + 208"
      using False by simp
    finally have "unat ((word_of_nat k :: 8 word) - 48) = k + 208" .
    with False show ?thesis
      by (simp add: w is_digit_def k_def[symmetric] word_less_nat_alt)
  qed
qed

lemma unat_uint64_cutoff: "unat uint64_cutoff = 1844674407370955162"
  by (simp add: uint64_cutoff_def uint64_max_def)

lemma unat_int64_cutoff: "unat int64_cutoff = 2 ^ 63"
  by (simp add: int64_cutoff_def)

lemma dec_from_Nil [simp]: "dec_from a [] = a"
  by (simp add: dec_from_def)

lemma dec_from_Cons [simp]: "dec_from a (c # cs) = dec_from (10 * a + digit_val c) cs"
  by (simp add: dec_from_def)

lemma dec_from_ge: "a \<le> dec_from a cs"
proof (induction cs arbitrary: a)
  case Nil
  then show ?case by simp
next
  case (Cons c cs)
  show ?case using Cons.IH [of "10 * a + digit_val c"] by simp
qed

lemma dec_from_bound:
  "\<forall>c \<in> set cs. is_digit c \<Longrightarrow> dec_from a cs < (a + 1) * 10 ^ length cs"
proof (induction cs arbitrary: a)
  case Nil
  then show ?case by simp
next
  case (Cons c cs)
  then have d: "digit_val c < 10" by (simp add: digit_val_lt)
  have "dec_from (10 * a + digit_val c) cs < (10 * a + digit_val c + 1) * 10 ^ length cs"
    using Cons by simp
  also have "\<dots> \<le> (10 * a + 10) * 10 ^ length cs"
    using d by (intro mult_le_mono1) simp
  also have "\<dots> = (a + 1) * 10 ^ length (c # cs)"
    by (simp add: algebra_simps)
  finally show ?case by simp
qed

lemma word_of_nat_dec_from:
  "(word_of_nat (dec_from a cs) :: 'a::len word) =
     foldl (\<lambda>w c. w * 10 + word_of_nat (digit_val c)) (word_of_nat a) cs"
  by (induction cs arbitrary: a) (simp_all add: algebra_simps)

lemma ucast_digit_byte:
  "is_digit c \<Longrightarrow> (ucast ((of_char c :: 8 word) - 48) :: 64 word) = word_of_nat (digit_val c)"
proof -
  assume dig: "is_digit c"
  define k where "k = (of_char c :: nat)"
  have k: "48 \<le> k" "k < 256" using dig by (simp_all add: k_def is_digit_def)
  have "(of_char c :: 8 word) - 48 = word_of_nat (k - 48)"
    using k by (simp add: k_def of_nat_of_char of_nat_diff)
  moreover have "(ucast (word_of_nat (k - 48) :: 8 word) :: 64 word) = word_of_nat (k - 48)"
  proof (rule word_unat_eq_iff [THEN iffD2])
    have "unat (word_of_nat (k - 48) :: 8 word) = k - 48"
      using k by (simp add: unat_of_nat del: of_nat_diff)
    moreover have "unat (word_of_nat (k - 48) :: 64 word) = k - 48"
      using k by (simp add: unat_of_nat del: of_nat_diff)
    ultimately show "unat (ucast (word_of_nat (k - 48) :: 8 word) :: 64 word)
        = unat (word_of_nat (k - 48) :: 64 word)"
      using k by (simp add: unsigned_ucast_eq take_bit_nat_eq_self del: of_nat_diff)
  qed
  ultimately show ?thesis by (simp add: digit_val_def k_def)
qed

lemma word_of_nat_dec_from_cong:
  "(word_of_nat a :: 'a::len word) = word_of_nat b \<Longrightarrow>
     (word_of_nat (dec_from a cs) :: 'a word) = word_of_nat (dec_from b cs)"
  by (simp add: word_of_nat_dec_from)

subsection \<open>The fast-path digit loop\<close>

lemma atoi_digits_eq:
  "atoi_digits n cs =
     (if \<forall>c \<in> set cs. is_digit c then Some (word_of_nat (dec_from (unat n) cs)) else None)"
proof (induction cs arbitrary: n)
  case Nil
  then show ?case by simp
next
  case (Cons c cs)
  show ?case
  proof (cases "is_digit c")
    case False
    then show ?thesis using byte_digit_test [of c] by simp
  next
    case True
    let ?n1 = "n * 10 + word_of_nat (digit_val c) :: 64 word"
    have step: "atoi_digits n (c # cs) = atoi_digits ?n1 cs"
      using True byte_digit_test [of c] ucast_digit_byte [OF True] by (simp add: Let_def)
    have "(word_of_nat (unat ?n1) :: 64 word) = word_of_nat (10 * unat n + digit_val c)"
      by (simp add: algebra_simps)
    then have "(word_of_nat (dec_from (unat ?n1) cs) :: 64 word)
        = word_of_nat (dec_from (10 * unat n + digit_val c) cs)"
      by (rule word_of_nat_dec_from_cong)
    with step Cons.IH [of ?n1] True show ?thesis by simp
  qed
qed

subsection \<open>The ParseUint digit loop and its overflow test\<close>

lemma parse_uint_digits_step:
  assumes dig: "is_digit c" and lt: "\<not> uint64_cutoff \<le> n"
  shows "parse_uint_digits n (c # cs) =
     (if 10 * unat n + digit_val c < 2 ^ 64
      then parse_uint_digits (n * 10 + word_of_nat (digit_val c)) cs
      else (uint64_max, Some ErrRange))
   \<and> (10 * unat n + digit_val c < 2 ^ 64 \<longrightarrow>
        unat (n * 10 + word_of_nat (digit_val c)) = 10 * unat n + digit_val c)"
proof -
  let ?a = "unat n" and ?d = "digit_val c"
  have a: "?a < 1844674407370955162"
    using lt by (simp add: word_le_nat_alt unat_uint64_cutoff not_le)
  then have m10: "unat (n * 10) = 10 * ?a"
    using unat_mult_lem [of n 10] by simp
  have d64: "unat (word_of_nat ?d :: 64 word) = ?d"
    using digit_val_lt [OF dig] by (simp add: unat_of_nat)
  show ?thesis
  proof (cases "10 * ?a + ?d < 2 ^ 64")
    case True
    then have nowrap: "n * 10 \<le> n * 10 + word_of_nat ?d"
      using no_olen_add_nat [of "n * 10" "word_of_nat ?d"] m10 d64 by simp
    have n1: "unat (n * 10 + word_of_nat ?d) = 10 * ?a + ?d"
      using True m10 d64 unat_add_lem [of "n * 10" "word_of_nat ?d"] by simp
    have nm: "\<not> uint64_max < n * 10 + word_of_nat ?d" by (simp add: uint64_max_def)
    have nw: "\<not> n * 10 + word_of_nat ?d < n * 10" using nowrap by simp
    from dig lt have "parse_uint_digits n (c # cs) = parse_uint_digits (n * 10 + word_of_nat ?d) cs"
      by (simp only: parse_uint_digits.simps Let_def nm nw if_False not_not) simp
    with True n1 show ?thesis by simp
  next
    case False
    then have "n * 10 + word_of_nat ?d < n * 10"
      using no_olen_add_nat [of "n * 10" "word_of_nat ?d"] m10 d64 by (simp add: not_le)
    with dig lt False show ?thesis by (simp add: Let_def)
  qed
qed

lemma parse_uint_digits_ok:
  "parse_uint_digits n cs = (m, None) \<longleftrightarrow>
     (\<forall>c \<in> set cs. is_digit c) \<and> dec_from (unat n) cs < 2 ^ 64 \<and>
     m = word_of_nat (dec_from (unat n) cs)"
proof (induction cs arbitrary: n)
  case Nil
  show ?case using unsigned_less [of n] by auto
next
  case (Cons c cs)
  have ge: "10 * unat n + digit_val c \<le> dec_from (10 * unat n + digit_val c) cs"
    by (rule dec_from_ge)
  show ?case
  proof (cases "is_digit c \<and> \<not> uint64_cutoff \<le> n")
    case True
    then show ?thesis
      using parse_uint_digits_step [of c n cs] Cons.IH ge by (auto simp: not_less)
  next
    case False
    moreover have "uint64_cutoff \<le> n \<Longrightarrow> \<not> dec_from (unat n) (c # cs) < 2 ^ 64"
      using ge by (simp add: word_le_nat_alt unat_uint64_cutoff)
    ultimately show ?thesis by auto
  qed
qed

lemma parse_uint_digits_range_val:
  "snd (parse_uint_digits n cs) = Some ErrRange \<Longrightarrow> fst (parse_uint_digits n cs) = uint64_max"
  by (induction n cs rule: parse_uint_digits.induct) (auto simp: Let_def)

lemma parse_uint_digits_no_range:
  "dec_from (unat n) (takeWhile is_digit cs) < 2 ^ 64 \<Longrightarrow>
     snd (parse_uint_digits n cs) \<noteq> Some ErrRange"
proof (induction cs arbitrary: n)
  case Nil
  then show ?case by simp
next
  case (Cons c cs)
  show ?case
  proof (cases "is_digit c")
    case False
    then show ?thesis by simp
  next
    case dig: True
    let ?a = "unat n" and ?d = "digit_val c"
    have small: "dec_from (10 * ?a + ?d) (takeWhile is_digit cs) < 2 ^ 64"
      using Cons.prems dig by simp
    moreover have "10 * ?a + ?d \<le> dec_from (10 * ?a + ?d) (takeWhile is_digit cs)"
      by (rule dec_from_ge)
    ultimately have lt: "10 * ?a + ?d < 2 ^ 64" by linarith
    then have "\<not> uint64_cutoff \<le> n"
      by (simp add: word_le_nat_alt unat_uint64_cutoff)
    with parse_uint_digits_step [OF dig this, of cs] lt
    have eq: "parse_uint_digits n (c # cs) = parse_uint_digits (n * 10 + word_of_nat ?d) cs"
      and n1: "unat (n * 10 + word_of_nat ?d) = 10 * ?a + ?d" by simp_all
    show ?thesis
      unfolding eq using Cons.IH [of "n * 10 + word_of_nat ?d"] small n1 by simp
  qed
qed

lemma parse_uint_ok:
  "parse_uint r = (m, None) \<longleftrightarrow>
     all_digits r \<and> dec_from 0 r < 2 ^ 64 \<and> m = word_of_nat (dec_from 0 r)"
  using parse_uint_digits_ok [of 0 r m] by (auto simp: parse_uint_def all_digits_def)

lemma sint_nat_pos:
  "d < 2 ^ 63 \<Longrightarrow> sint (word_of_nat d :: 64 word) = int d"
  using sint_word_of_int_int64 [of "int d"] by (simp add: in_int64_iff)

lemma sint_nat_neg:
  "d \<le> 2 ^ 63 \<Longrightarrow> sint (- word_of_nat d :: 64 word) = - int d"
  using sint_word_of_int_int64 [of "- int d"] by (simp add: in_int64_iff)

lemma unat_word_of_dec:
  "d < 2 ^ 64 \<Longrightarrow> unat (word_of_nat d :: 64 word) = d"
  by (simp add: unat_of_nat)

lemma parse_uint_range_val:
  "snd (parse_uint r) = Some ErrRange \<Longrightarrow> fst (parse_uint r) = uint64_max"
  by (simp add: parse_uint_def parse_uint_digits_range_val split: if_splits)

lemma uint64_max_cutoffs:
  "int64_cutoff \<le> uint64_max" "int64_cutoff < uint64_max"
  by (simp_all add: int64_cutoff_def uint64_max_def word_le_nat_alt word_less_nat_alt
      unsigned_minus_1_eq_mask mask_eq_exp_minus_1)

subsection \<open>ParseInt\<close>

lemma parse_int_unfold:
  assumes "s \<noteq> []" and "split_sign s = (neg, r)" and "parse_uint r = (un, err)"
  shows "parse_int s = (if err \<noteq> None \<and> err \<noteq> Some ErrRange then (0, err)
          else if \<not> neg \<and> un \<ge> int64_cutoff then (sint (int64_cutoff - 1), Some ErrRange)
          else if neg \<and> un > int64_cutoff then (sint (- int64_cutoff), Some ErrRange)
          else (sint (if neg then - un else un), None))"
  using assms by (simp add: parse_int_def)

lemma parse_int_uint_err:
  assumes "s \<noteq> []" and "split_sign s = (neg, r)" and "parse_uint r = (un, Some k)"
  shows "snd (parse_int s) \<noteq> None"
proof (cases k)
  case ErrSyntax
  then show ?thesis by (simp add: parse_int_unfold [OF assms])
next
  case ErrRange
  then have "un = uint64_max" using assms(3) parse_uint_range_val [of r] by simp
  then show ?thesis using ErrRange uint64_max_cutoffs by (simp add: parse_int_unfold [OF assms])
qed

lemma parse_int_ok:
  "parse_int s = (v, None) \<longleftrightarrow> int_syntax s \<and> in_int64 (int_value s) \<and> v = int_value s"
proof (cases "s = []")
  case True
  then show ?thesis by (simp add: parse_int_def int_syntax_def split_sign_def all_digits_def)
next
  case ne: False
  obtain neg r where sp: "split_sign s = (neg, r)" by fastforce
  obtain un err where pu: "parse_uint r = (un, err)" by fastforce
  let ?dec = "dec_from 0 r"
  have syn: "int_syntax s \<longleftrightarrow> all_digits r" by (simp add: int_syntax_def sp)
  have val: "int_value s = (if neg then - int ?dec else int ?dec)" by (simp add: int_value_def sp)
  note unf = parse_int_unfold [OF ne sp pu]
  show ?thesis
  proof (cases err)
    case None
    with pu parse_uint_ok have ok: "all_digits r" "?dec < 2 ^ 64" "un = word_of_nat ?dec"
      by auto
    then have u: "unat un = ?dec" by (simp add: unat_word_of_dec)
    show ?thesis
    proof (cases neg)
      case False
      have "un \<ge> int64_cutoff \<longleftrightarrow> ?dec \<ge> 2 ^ 63"
        using u by (simp add: word_le_nat_alt unat_int64_cutoff)
      then show ?thesis
        using ok False None by (auto simp: unf syn val in_int64_iff sint_nat_pos)
    next
      case True
      have "un > int64_cutoff \<longleftrightarrow> ?dec > 2 ^ 63"
        using u by (simp add: word_less_nat_alt unat_int64_cutoff)
      then show ?thesis
        using ok True None by (auto simp: unf syn val in_int64_iff sint_nat_neg)
    qed
  next
    case (Some k)
    have nok: "\<not> (all_digits r \<and> ?dec < 2 ^ 64)"
      using pu Some parse_uint_ok [of r "word_of_nat ?dec"] by auto
    have "\<not> (int_syntax s \<and> in_int64 (int_value s))"
      using nok by (auto simp: syn val in_int64_iff)
    with parse_int_uint_err [OF ne sp pu [unfolded Some]] show ?thesis by auto
  qed
qed

subsection \<open>The fast path and Atoi\<close>

lemma split_sign_length: "split_sign s = (neg, r) \<Longrightarrow> length r \<le> length s"
  by (auto simp: split_sign_def split: list.splits if_splits)

lemma dec_from_short:
  assumes "\<forall>c \<in> set r. is_digit c" and "length r \<le> 18"
  shows "dec_from 0 r < 2 ^ 63"
proof -
  have "dec_from 0 r < 10 ^ length r"
    using dec_from_bound [OF assms(1), of 0] by simp
  also have "(10::nat) ^ length r \<le> 10 ^ 18"
    using assms(2) by (rule power_increasing) simp
  finally show ?thesis by simp
qed

lemma int_syntax_short_in_range:
  assumes "int_syntax s" and "length s < 19"
  shows "in_int64 (int_value s)"
proof -
  obtain neg r where sp: "split_sign s = (neg, r)" by fastforce
  with assms have "all_digits r" "length r \<le> 18"
    by (auto simp: int_syntax_def dest: split_sign_length)
  then have "dec_from 0 r < 2 ^ 63"
    by (intro dec_from_short) (simp_all add: all_digits_def)
  then show ?thesis by (simp add: int_value_def sp in_int64_iff)
qed

lemma atoi_fast_eq:
  assumes "0 < length s" and "length s < 19"
  shows "atoi_fast s =
    (if int_syntax s then (int_value s, None) else (0, Some (NumError ''Atoi'' s ErrSyntax)))"
proof -
  obtain c r where s: "s = c # r" using assms(1) by (cases s) auto
  have short: "\<forall>c \<in> set r. is_digit c \<Longrightarrow> dec_from 0 r < 2 ^ 63"
    using assms(2) s by (intro dec_from_short) simp_all
  have shortc: "\<forall>x \<in> set (c # r). is_digit x \<Longrightarrow> dec_from 0 (c # r) < 2 ^ 63"
    using assms(2) s by (intro dec_from_short) simp_all
  consider "c = CHR ''-''" | "c = CHR ''+''" | "c \<noteq> CHR ''-''" "c \<noteq> CHR ''+''" by blast
  then show ?thesis
  proof cases
    case 1
    then show ?thesis using short
      by (auto simp: s atoi_fast_def Let_def split_sign_def int_syntax_def int_value_def
          all_digits_def atoi_digits_eq sint_nat_neg)
  next
    case 2
    then show ?thesis using short
      by (auto simp: s atoi_fast_def Let_def split_sign_def int_syntax_def int_value_def
          all_digits_def atoi_digits_eq sint_nat_pos)
  next
    case 3
    then show ?thesis using shortc
      by (auto simp: s atoi_fast_def Let_def split_sign_def int_syntax_def int_value_def
          all_digits_def atoi_digits_eq sint_nat_pos simp del: dec_from_Cons)
  qed
qed

lemma parse_int_short_err:
  assumes "length s < 19" and "\<not> int_syntax s"
  shows "parse_int s = (0, Some ErrSyntax)"
proof (cases "s = []")
  case True
  then show ?thesis by (simp add: parse_int_def)
next
  case ne: False
  obtain neg r where sp: "split_sign s = (neg, r)" by fastforce
  obtain un err where pu: "parse_uint r = (un, err)" by fastforce
  have r18: "length r \<le> 18" using sp assms(1) split_sign_length by fastforce
  have "err \<noteq> None"
    using pu assms(2) parse_uint_ok [of r un] by (auto simp: int_syntax_def sp)
  moreover have "err \<noteq> Some ErrRange"
  proof (cases "r = []")
    case True
    then show ?thesis using pu by (auto simp: parse_uint_def)
  next
    case False
    have "dec_from 0 (takeWhile is_digit r) < 2 ^ 63"
      using r18 by (intro dec_from_short) (auto dest: set_takeWhileD
        intro: order_trans [OF length_takeWhile_le])
    then have "snd (parse_uint_digits 0 r) \<noteq> Some ErrRange"
      by (intro parse_uint_digits_no_range) simp
    then show ?thesis using pu False by (simp add: parse_uint_def)
  qed
  ultimately have "err = Some ErrSyntax"
    by (cases err) (simp_all, metis num_error_kind.exhaust)
  then show ?thesis using ne by (simp add: parse_int_def sp pu)
qed

lemma Atoi_ok:
  "Atoi s = (v, None) \<longleftrightarrow> int_syntax s \<and> in_int64 (int_value s) \<and> v = int_value s"
proof (cases "0 < length s \<and> length s < 19")
  case True
  then show ?thesis
    using int_syntax_short_in_range [of s] by (auto simp: Atoi_def atoi_fast_eq)
next
  case False
  obtain i err where "parse_int s = (i, err)" by fastforce
  with False show ?thesis
    using parse_int_ok [of s v] by (auto simp: Atoi_def)
qed

subsection \<open>Printing and parsing back\<close>

lemma digit_char_of:
  "k < 10 \<Longrightarrow> is_digit (char_of (48 + k)) \<and> digit_val (char_of (48 + k)) = k"
  by (simp add: is_digit_def digit_val_def)

lemma dec_from_snoc: "dec_from a (xs @ [c]) = 10 * dec_from a xs + digit_val c"
  by (simp add: dec_from_def)

lemma decimal_digits:
  "decimal n \<noteq> [] \<and> (\<forall>c \<in> set (decimal n). is_digit c) \<and> dec_from 0 (decimal n) = n"
proof (induction n rule: decimal.induct)
  case (1 n)
  show ?case
  proof (cases "n < 10")
    case True
    then have "decimal n = [char_of (48 + n)]" by (subst decimal.simps) simp
    then show ?thesis using True digit_char_of [of n] by simp
  next
    case False
    then have IH: "decimal (n div 10) \<noteq> [] \<and> (\<forall>c \<in> set (decimal (n div 10)). is_digit c)
        \<and> dec_from 0 (decimal (n div 10)) = n div 10"
      using "1.IH" by simp
    have "n mod 10 < 10" by simp
    then have "is_digit (char_of (48 + n mod 10)) \<and> digit_val (char_of (48 + n mod 10)) = n mod 10"
      by (rule digit_char_of)
    moreover have "decimal n = decimal (n div 10) @ [char_of (48 + n mod 10)]"
      using False by (subst decimal.simps) simp
    ultimately show ?thesis using IH by (simp add: dec_from_snoc)
  qed
qed

lemma decimal_first_digit: "\<exists>c r. decimal n = c # r \<and> is_digit c"
  using decimal_digits [of n] by (cases "decimal n") auto

lemma split_sign_digit_first:
  "is_digit c \<Longrightarrow> split_sign (c # r) = (False, c # r)"
  by (auto simp: split_sign_def is_digit_def)

lemma format_int_syntax_value:
  "int_syntax (format_int v) \<and> int_value (format_int v) = v"
proof (cases "v < 0")
  case True
  then show ?thesis
    using decimal_digits [of "nat (- v)"]
    by (simp add: format_int_def int_syntax_def int_value_def split_sign_def all_digits_def)
next
  case False
  obtain c r where d: "decimal (nat v) = c # r" "is_digit c"
    using decimal_first_digit by blast
  then have "split_sign (decimal (nat v)) = (False, decimal (nat v))"
    by (simp add: split_sign_digit_first)
  with False show ?thesis
    using decimal_digits [of "nat v"]
    by (simp add: format_int_def int_syntax_def int_value_def all_digits_def)
qed

lemma Atoi_error_shape:
  "snd (Atoi s) = Some e \<Longrightarrow> \<exists>k. e = NumError ''Atoi'' s k"
  by (auto simp: Atoi_def atoi_fast_def Let_def split: if_splits option.splits prod.splits)

subsection \<open>Out-of-range literals\<close>

lemma parse_uint_digits_no_syntax:
  "\<forall>c \<in> set cs. is_digit c \<Longrightarrow> snd (parse_uint_digits n cs) \<noteq> Some ErrSyntax"
  by (induction n cs rule: parse_uint_digits.induct) (auto simp: Let_def)

lemma sint_int64_bounds:
  "sint (int64_cutoff - 1) = 2 ^ 63 - 1" "sint (- int64_cutoff) = - (2 ^ 63)"
  by (simp_all add: int64_cutoff_def)

lemma parse_int_range:
  assumes "int_syntax s" and "\<not> in_int64 (int_value s)"
  shows "parse_int s = (if int_value s < 0 then - (2 ^ 63) else 2 ^ 63 - 1, Some ErrRange)"
proof -
  obtain neg r where sp: "split_sign s = (neg, r)" by fastforce
  obtain un err where pu: "parse_uint r = (un, err)" by fastforce
  let ?dec = "dec_from 0 r"
  have ne: "s \<noteq> []" using assms(1) by (auto simp: int_syntax_def split_sign_def all_digits_def)
  have ad: "all_digits r" using assms(1) sp by (simp add: int_syntax_def)
  have val: "int_value s = (if neg then - int ?dec else int ?dec)" by (simp add: int_value_def sp)
  have big: "2 ^ 63 \<le> ?dec" and nb: "neg \<Longrightarrow> 2 ^ 63 < ?dec"
    using assms(2) by (auto simp: val in_int64_iff split: if_splits)
  have sgn: "int_value s < 0 \<longleftrightarrow> neg" using big by (simp add: val)
  have nsyn: "err \<noteq> Some ErrSyntax"
    using parse_uint_digits_no_syntax [of r 0] ad pu by (auto simp: parse_uint_def all_digits_def)
  have e: "\<not> (err \<noteq> None \<and> err \<noteq> Some ErrRange)"
    using nsyn by (cases err) (simp, metis num_error_kind.exhaust)
  have over: "if neg then int64_cutoff < un else int64_cutoff \<le> un"
  proof (cases err)
    case None
    with pu parse_uint_ok have "?dec < 2 ^ 64" "un = word_of_nat ?dec" by auto
    then have "unat un = ?dec" by (simp add: unat_word_of_dec)
    with big nb show ?thesis by (simp add: word_le_nat_alt word_less_nat_alt unat_int64_cutoff)
  next
    case (Some k)
    with e have "err = Some ErrRange" by simp
    with pu have "un = uint64_max" using parse_uint_range_val [of r] by simp
    then show ?thesis using uint64_max_cutoffs by simp
  qed
  show ?thesis
  proof (cases neg)
    case True
    with over e show ?thesis
      by (simp only: parse_int_unfold [OF ne sp pu] sgn sint_int64_bounds) simp
  next
    case False
    with over e show ?thesis
      by (simp only: parse_int_unfold [OF ne sp pu] sgn sint_int64_bounds) simp
  qed
qed

subsection \<open>Properties of Atoi\<close>

text \<open>C3: \<open>Atoi\<close> succeeds exactly on an optional sign followed by one or more decimal
  digits whose value fits in a signed 64-bit integer, and then returns that value; every
  error it returns is a \<open>*NumError\<close> of function \<open>Atoi\<close> carrying the whole input.\<close>

theorem Atoi_spec:
  "(Atoi s = (v, None) \<longleftrightarrow> int_syntax s \<and> in_int64 (int_value s) \<and> v = int_value s) \<and>
   (snd (Atoi s) \<noteq> None \<longrightarrow> (\<exists>k. snd (Atoi s) = Some (NumError ''Atoi'' s k)))"
  using Atoi_ok [of s v] Atoi_error_shape [of s] by auto

theorem Atoi_spec_witness:
  "Atoi ''-12'' = (-12, None) \<and> (\<exists>k. snd (Atoi ''1x'') = Some (NumError ''Atoi'' ''1x'' k))"
proof -
  have "int_syntax ''-12'' \<and> in_int64 (int_value ''-12'') \<and> -12 = int_value ''-12''"
    by (simp add: int_syntax_def int_value_def split_sign_def all_digits_def is_digit_def
        digit_val_def in_int64_iff)
  then have a: "Atoi ''-12'' = (-12, None)" using Atoi_spec [of "''-12''" "-12"] by blast
  have "snd (Atoi ''1x'') \<noteq> None"
    by (simp add: Atoi_def atoi_fast_def Let_def)
  then have "\<exists>k. snd (Atoi ''1x'') = Some (NumError ''Atoi'' ''1x'' k)"
    using Atoi_spec [of "''1x''"] by blast
  with a show ?thesis by blast
qed

text \<open>C4: the fast path for inputs of 1 to 18 bytes returns exactly what the general
  path \<open>ParseInt(s, 10, 0)\<close> returns with the error relabelled to \<open>Atoi\<close>: the
  optimisation does not change the result, value and error included.\<close>

theorem Atoi_fast_path_equiv:
  assumes "0 < length s" and "length s < 19"
  shows "atoi_fast s = (case parse_int s of (i, err) \<Rightarrow> (i, map_option (NumError ''Atoi'' s) err))"
proof (cases "int_syntax s")
  case True
  with assms have "parse_int s = (int_value s, None)"
    using parse_int_ok int_syntax_short_in_range by blast
  with True assms show ?thesis by (simp add: atoi_fast_eq)
next
  case False
  with assms show ?thesis by (simp add: atoi_fast_eq parse_int_short_err)
qed

theorem Atoi_fast_path_equiv_witness:
  "atoi_fast ''-42'' = (case parse_int ''-42'' of (i, err) \<Rightarrow> (i, map_option (NumError ''Atoi'' ''-42'') err))"
  using Atoi_fast_path_equiv [of "''-42''"] by simp

text \<open>C5: overflow is reported, not wrapped: for a syntactically valid decimal literal
  whose value does not fit in Go's 64-bit \<open>int\<close> (only inputs of 19 bytes or more),
  \<open>Atoi\<close> returns the nearest bound, \<open>-2^63\<close> or \<open>2^63 - 1\<close>, together with a
  \<open>*NumError\<close> of kind \<open>ErrRange\<close>. This goes through \<open>ParseUint\<close>'s wrap test
  and cutoff and \<open>ParseInt\<close>'s clamp.\<close>

theorem Atoi_range_clamp:
  assumes "int_syntax s" and "\<not> in_int64 (int_value s)"
  shows "Atoi s = (if int_value s < 0 then - (2 ^ 63) else 2 ^ 63 - 1,
                   Some (NumError ''Atoi'' s ErrRange))"
proof -
  have "\<not> (0 < length s \<and> length s < 19)" using assms int_syntax_short_in_range by blast
  then show ?thesis by (auto simp: Atoi_def parse_int_range [OF assms])
qed

theorem Atoi_range_clamp_witness:
  "Atoi ''-99999999999999999999'' =
     (- (2 ^ 63), Some (NumError ''Atoi'' ''-99999999999999999999'' ErrRange))"
proof -
  have v: "int_syntax ''-99999999999999999999'' \<and>
      int_value ''-99999999999999999999'' = - 99999999999999999999"
    by (simp add: int_syntax_def int_value_def split_sign_def all_digits_def is_digit_def
        digit_val_def dec_from_def)
  then have "\<not> in_int64 (int_value ''-99999999999999999999'')" by (simp add: in_int64_iff)
  with v Atoi_range_clamp [of "''-99999999999999999999''"] show ?thesis by simp
qed

text \<open>C6: parsing back what the standard decimal printer prints gives the printed
  value, for every 64-bit integer.\<close>

theorem Atoi_format_int: "in_int64 v \<Longrightarrow> Atoi (format_int v) = (v, None)"
  using Atoi_ok format_int_syntax_value by metis

theorem Atoi_format_int_witness:
  "Atoi (format_int (-9223372036854775808)) = (-9223372036854775808, None)"
  using Atoi_format_int [of "-9223372036854775808"] by (simp add: in_int64_iff)

end
