(* ===== verification/Extract.thy ===== *)
theory Extract
  imports Dom Atoi
begin

text \<open>
  The extractor: the part of \<open>rebuildCache\<close> (and of \<open>fetchParseAndJsonify\<close> in
  \<open>main.go\<close>) between the fetch and the cache write. The document's forecast blocks are
  \<open>doc.Find("div.tx-dmi-data-store table table")\<close>; an outer \<open>Each\<close> callback turns
  each block into a \<open>forecast\<close> (city = text of the first row, forecast text = text of
  the last row) and runs an inner \<open>Each\<close> callback over the block's rows, which keeps
  the rows with exactly two cells as \<open>forecastValue\<close>s (the placeholder \<open>"-"\<close> reads
  as 0, anything else goes through \<open>strconv.Atoi\<close>). Both callbacks latch the first
  error: \<open>measurement_step\<close> and \<open>forecast_step\<close> model them over the pair (error
  variable, slice), and \<open>extract_forecasts\<close> is the fold of the outer one.
  \<open>extract_spec\<close> is the reference reading (first error wins, no partial result) and
  \<open>extract_forecasts_eq_spec\<close> shows that the callbacks implement it.
\<close>

record forecastValue =
  Name :: string
  Value :: go_int

record forecast =
  CityName :: string
  ForecastText :: string
  Values :: "forecastValue list"

text \<open>The errors of the program: the fetch (\<open>"error fetching from URL: %v"\<close>), a
  measurement value (\<open>"unable to parse pollen value for \"%s\": %v"\<close>), and the empty
  cache of \<open>fetchCache\<close>.\<close>

datatype pollen_error =
    FetchError string
  | ParseValueError string num_error
  | CacheEmpty

definition block_selector :: selector where
  "block_selector = Desc [Sel ''div'' (Some ''tx-dmi-data-store''), Sel ''table'' None]
     (Sel ''table'' None)"

definition tr_sel :: simple_sel where
  "tr_sel = Sel ''tr'' None"

definition td_sel :: simple_sel where
  "td_sel = Sel ''td'' None"

subsection \<open>The two callbacks, as in the source\<close>

text \<open>The inner callback, over one \<open>tr\<close> selection \<open>sel\<close>. Note that the row is
  appended also when \<open>Atoi\<close> fails (with the value \<open>Atoi\<close> returned); the error
  then discards the whole block.\<close>

definition measurement_step ::
  "pollen_error option \<times> forecastValue list \<Rightarrow> node \<Rightarrow> pollen_error option \<times> forecastValue list"
where
  "measurement_step st sel = (case st of (err, forecastValues) \<Rightarrow>
     if err \<noteq> None \<or> length (find_local td_sel sel) \<noteq> 2 then (err, forecastValues)
     else (let strValue = sel_text (sel_last (find_local td_sel sel));
               (value, err') =
                 (if strValue \<noteq> ''-'' then
                    (case Atoi strValue of
                       (v, None) \<Rightarrow> (v, err)
                     | (v, Some innerErr) \<Rightarrow> (v, Some (ParseValueError strValue innerErr)))
                  else (0, err))
           in (err', forecastValues @
                 [\<lparr>Name = sel_text (sel_first (find_local td_sel sel)), Value = value\<rparr>])))"

text \<open>The outer callback, over one forecast block \<open>selection\<close>.\<close>

definition forecast_step ::
  "pollen_error option \<times> forecast list \<Rightarrow> node \<Rightarrow> pollen_error option \<times> forecast list"
where
  "forecast_step st selection = (case st of (outerErr, forecasts) \<Rightarrow>
     if outerErr \<noteq> None then (outerErr, forecasts)
     else (let cityName = sel_text (sel_first (find_local tr_sel selection));
               forecastText = sel_text (sel_last (find_local tr_sel selection));
               (err, forecastValues) =
                 foldl measurement_step (None, []) (find_local tr_sel selection)
           in if err \<noteq> None then (err, forecasts)
              else (None, forecasts @ [\<lparr>CityName = cityName, ForecastText = forecastText,
                                         Values = forecastValues\<rparr>])))"

definition forecast_blocks :: "document \<Rightarrow> node list" where
  "forecast_blocks doc = find_doc block_selector doc"

definition extract_forecasts :: "document \<Rightarrow> pollen_error + forecast list" where
  "extract_forecasts doc =
     (case foldl forecast_step (None, []) (forecast_blocks doc) of
        (Some outerErr, _) \<Rightarrow> Inl outerErr
      | (None, forecasts) \<Rightarrow> Inr forecasts)"

subsection \<open>Reference reading of the extractor\<close>

definition rows :: "node \<Rightarrow> node list" where
  "rows b = find_local tr_sel b"

definition is_measurement_row :: "node \<Rightarrow> bool" where
  "is_measurement_row r \<longleftrightarrow> length (find_local td_sel r) = 2"

definition name_text :: "node \<Rightarrow> string" where
  "name_text r = sel_text (sel_first (find_local td_sel r))"

definition value_text :: "node \<Rightarrow> string" where
  "value_text r = sel_text (sel_last (find_local td_sel r))"

definition parse_value :: "string \<Rightarrow> pollen_error + go_int" where
  "parse_value t = (if t = ''-'' then Inr 0
     else (case Atoi t of (v, None) \<Rightarrow> Inr v | (v, Some e) \<Rightarrow> Inl (ParseValueError t e)))"

fun parse_rows :: "node list \<Rightarrow> pollen_error + forecastValue list" where
  "parse_rows [] = Inr []"
| "parse_rows (r # rs) =
     (if \<not> is_measurement_row r then parse_rows rs
      else (case parse_value (value_text r) of
              Inl e \<Rightarrow> Inl e
            | Inr v \<Rightarrow> (case parse_rows rs of
                          Inl e \<Rightarrow> Inl e
                        | Inr fvs \<Rightarrow> Inr (\<lparr>Name = name_text r, Value = v\<rparr> # fvs))))"

definition parse_block :: "node \<Rightarrow> pollen_error + forecast" where
  "parse_block b = (case parse_rows (rows b) of
      Inl e \<Rightarrow> Inl e
    | Inr fvs \<Rightarrow> Inr \<lparr>CityName = sel_text (sel_first (rows b)),
                     ForecastText = sel_text (sel_last (rows b)), Values = fvs\<rparr>)"

fun parse_blocks :: "node list \<Rightarrow> pollen_error + forecast list" where
  "parse_blocks [] = Inr []"
| "parse_blocks (b # bs) = (case parse_block b of
      Inl e \<Rightarrow> Inl e
    | Inr f \<Rightarrow> (case parse_blocks bs of Inl e \<Rightarrow> Inl e | Inr fs \<Rightarrow> Inr (f # fs)))"

definition extract_spec :: "document \<Rightarrow> pollen_error + forecast list" where
  "extract_spec doc = parse_blocks (forecast_blocks doc)"

text \<open>What a successful extraction contains, in closed form: a value text is acceptable
  when it is the placeholder or a decimal literal in the 64-bit range; a block yields its
  first and last row texts and one measurement per two-cell row, in order.\<close>

definition value_ok :: "string \<Rightarrow> bool" where
  "value_ok t \<longleftrightarrow> t = ''-'' \<or> (int_syntax t \<and> in_int64 (int_value t))"

definition value_of :: "string \<Rightarrow> go_int" where
  "value_of t = (if t = ''-'' then 0 else int_value t)"

definition block_ok :: "node \<Rightarrow> bool" where
  "block_ok b \<longleftrightarrow> (\<forall>r \<in> set (rows b). is_measurement_row r \<longrightarrow> value_ok (value_text r))"

definition measurement_of :: "node \<Rightarrow> forecastValue" where
  "measurement_of r = \<lparr>Name = name_text r, Value = value_of (value_text r)\<rparr>"

definition forecast_of :: "node \<Rightarrow> forecast" where
  "forecast_of b = \<lparr>CityName = sel_text (sel_first (rows b)),
     ForecastText = sel_text (sel_last (rows b)),
     Values = map measurement_of (filter is_measurement_row (rows b))\<rparr>"

subsection \<open>The callbacks implement the reference reading\<close>

text \<open>The definitions a concrete extraction unfolds to, for evaluation by \<open>simp\<close>.\<close>

lemmas extract_eval_simps = extract_forecasts_def forecast_blocks_def forecast_step_def
  measurement_step_def block_selector_def tr_sel_def td_sel_def dom_defs Atoi_def atoi_fast_def
  Let_def

lemma measurement_step_latches [pollen_simps]: "latches measurement_step"
  by (simp add: latches_def measurement_step_def)

lemma forecast_step_latches [pollen_simps]: "latches forecast_step"
  by (simp add: latches_def forecast_step_def)

lemma measurement_step_None:
  "measurement_step (None, acc) r =
     (if \<not> is_measurement_row r then (None, acc)
      else (case parse_value (value_text r) of
              Inl e \<Rightarrow> (Some e, acc @ [\<lparr>Name = name_text r, Value = fst (Atoi (value_text r))\<rparr>])
            | Inr v \<Rightarrow> (None, acc @ [\<lparr>Name = name_text r, Value = v\<rparr>])))"
  by (auto simp: measurement_step_def is_measurement_row_def parse_value_def value_text_def
      name_text_def Let_def split: prod.splits option.splits)

lemma measurement_fold:
  "(case foldl measurement_step (None, acc) rs of (err, fvs) \<Rightarrow>
      (case parse_rows rs of Inl e \<Rightarrow> err = Some e | Inr vs \<Rightarrow> err = None \<and> fvs = acc @ vs))"
proof (induction rs arbitrary: acc)
  case Nil
  then show ?case by simp
next
  case (Cons r rs)
  show ?case
  proof (cases "is_measurement_row r")
    case False
    then show ?thesis using Cons.IH [of acc] by (simp add: measurement_step_None)
  next
    case True
    show ?thesis
    proof (cases "parse_value (value_text r)")
      case (Inl e)
      with True show ?thesis
        by (simp add: measurement_step_None foldl_latched measurement_step_latches)
    next
      case (Inr v)
      with True Cons.IH [of "acc @ [\<lparr>Name = name_text r, Value = v\<rparr>]"] show ?thesis
        by (simp add: measurement_step_None split: sum.splits prod.splits)
    qed
  qed
qed

lemma forecast_step_None:
  "forecast_step (None, acc) b =
     (case parse_block b of Inl e \<Rightarrow> (Some e, acc) | Inr f \<Rightarrow> (None, acc @ [f]))"
proof -
  obtain err fvs where fo: "foldl measurement_step (None, []) (rows b) = (err, fvs)"
    by fastforce
  from measurement_fold [of "[]" "rows b"] fo
  have "case parse_rows (rows b) of Inl e \<Rightarrow> err = Some e | Inr vs \<Rightarrow> err = None \<and> fvs = vs"
    by (simp split: sum.splits)
  then show ?thesis using fo
    by (auto simp: forecast_step_def parse_block_def rows_def Let_def split: sum.splits)
qed

lemma forecast_fold:
  "(case foldl forecast_step (None, acc) bs of (err, fs) \<Rightarrow>
      (case parse_blocks bs of Inl e \<Rightarrow> err = Some e | Inr vs \<Rightarrow> err = None \<and> fs = acc @ vs))"
proof (induction bs arbitrary: acc)
  case Nil
  then show ?case by simp
next
  case (Cons b bs)
  show ?case
  proof (cases "parse_block b")
    case (Inl e)
    then show ?thesis by (simp add: forecast_step_None foldl_latched forecast_step_latches)
  next
    case (Inr f)
    with Cons.IH [of "acc @ [f]"] show ?thesis
      by (simp add: forecast_step_None split: sum.splits prod.splits)
  qed
qed

lemma extract_forecasts_parse_blocks:
  "extract_forecasts doc = parse_blocks (forecast_blocks doc)"
  using forecast_fold [of "[]" "forecast_blocks doc"]
  by (auto simp: extract_forecasts_def split: prod.splits option.splits sum.splits)

subsection \<open>The reference reading in closed form\<close>

lemma parse_value_Inr: "parse_value t = Inr v \<longleftrightarrow> value_ok t \<and> v = value_of t"
proof (cases "t = ''-''")
  case True
  then show ?thesis by (auto simp: parse_value_def value_ok_def value_of_def)
next
  case False
  obtain w err where a: "Atoi t = (w, err)" by fastforce
  show ?thesis
  proof (cases err)
    case None
    with a Atoi_ok [of t w] False show ?thesis
      by (auto simp: parse_value_def value_ok_def value_of_def)
  next
    case (Some e)
    with a Atoi_ok [of t] False show ?thesis
      by (auto simp: parse_value_def value_ok_def value_of_def)
  qed
qed

lemma parse_value_Inl: "parse_value t = Inl e \<Longrightarrow> \<exists>ie. e = ParseValueError t ie \<and> \<not> value_ok t"
  using parse_value_Inr [of t "value_of t"]
  by (auto simp: parse_value_def split: if_splits prod.splits option.splits)

lemma parse_value_cases: "(\<exists>e. parse_value t = Inl e) \<or> (\<exists>v. parse_value t = Inr v)"
  by (cases "parse_value t") auto

lemma parse_rows_Inr:
  "parse_rows rs = Inr fvs \<longleftrightarrow>
     (\<forall>r \<in> set rs. is_measurement_row r \<longrightarrow> value_ok (value_text r)) \<and>
     fvs = map measurement_of (filter is_measurement_row rs)"
proof (induction rs arbitrary: fvs)
  case Nil
  then show ?case by auto
next
  case (Cons r rs)
  show ?case
  proof (cases "is_measurement_row r")
    case False
    with Cons.IH show ?thesis by simp
  next
    case True
    show ?thesis
    proof (cases "parse_value (value_text r)")
      case (Inl e)
      then have "\<not> value_ok (value_text r)" using parse_value_Inl by blast
      with Inl True show ?thesis by simp
    next
      case (Inr v)
      then have v: "value_ok (value_text r)" "v = value_of (value_text r)"
        using parse_value_Inr by blast+
      with Inr True Cons.IH show ?thesis
        by (cases "parse_rows rs") (auto simp: measurement_of_def)
    qed
  qed
qed

lemma parse_rows_Inl:
  "parse_rows rs = Inl e \<Longrightarrow>
     \<exists>r \<in> set rs. is_measurement_row r \<and> \<not> value_ok (value_text r) \<and>
       (\<exists>ie. e = ParseValueError (value_text r) ie)"
proof (induction rs)
  case Nil
  then show ?case by simp
next
  case (Cons r rs)
  then show ?case
    by (auto split: if_splits sum.splits dest: parse_value_Inl)
qed

lemma parse_block_Inr: "parse_block b = Inr f \<longleftrightarrow> block_ok b \<and> f = forecast_of b"
proof (cases "parse_rows (rows b)")
  case (Inl e)
  then have "\<not> block_ok b"
    using parse_rows_Inr [of "rows b" "map measurement_of (filter is_measurement_row (rows b))"]
    by (auto simp: block_ok_def)
  with Inl show ?thesis by (simp add: parse_block_def)
next
  case (Inr fvs)
  then show ?thesis
    using parse_rows_Inr [of "rows b" fvs] by (auto simp: parse_block_def block_ok_def forecast_of_def)
qed

lemma parse_blocks_Inr:
  "parse_blocks bs = Inr fs \<longleftrightarrow> (\<forall>b \<in> set bs. block_ok b) \<and> fs = map forecast_of bs"
proof (induction bs arbitrary: fs)
  case Nil
  then show ?case by auto
next
  case (Cons b bs)
  show ?case
  proof (cases "parse_block b")
    case (Inl e)
    then have "\<not> block_ok b" using parse_block_Inr [of b "forecast_of b"] by auto
    with Inl show ?thesis by simp
  next
    case (Inr f)
    then have f: "block_ok b" "f = forecast_of b" using parse_block_Inr by blast+
    show ?thesis
    proof (cases "parse_blocks bs")
      case (Inl e)
      then have "\<not> (\<forall>b \<in> set bs. block_ok b)"
        using Cons.IH [of "map forecast_of bs"] by auto
      with Inl Inr show ?thesis by simp
    next
      case (Inr fs')
      with \<open>parse_block b = Inr f\<close> f Cons.IH [of fs'] show ?thesis by auto
    qed
  qed
qed

lemma parse_block_Inl:
  "parse_block b = Inl e \<Longrightarrow>
     \<exists>r \<in> set (rows b). is_measurement_row r \<and> \<not> value_ok (value_text r) \<and>
       (\<exists>ie. e = ParseValueError (value_text r) ie)"
  by (auto simp: parse_block_def split: sum.splits dest: parse_rows_Inl)

lemma parse_blocks_Inl:
  "parse_blocks bs = Inl e \<Longrightarrow>
     \<exists>b \<in> set bs. \<exists>r \<in> set (rows b). is_measurement_row r \<and> \<not> value_ok (value_text r) \<and>
       (\<exists>ie. e = ParseValueError (value_text r) ie)"
proof (induction bs)
  case Nil
  then show ?case by simp
next
  case (Cons b bs)
  then show ?case
    by (auto split: sum.splits dest: parse_block_Inl)
qed

subsection \<open>Properties of the extractor\<close>

text \<open>C1: the two nested \<open>Each\<close> callbacks with their latched error variables compute
  the reference reading of the extractor: the first block that fails makes the result that
  block's first failing row, and otherwise every block gives one forecast, in document
  order.\<close>

theorem extract_forecasts_eq_spec: "extract_forecasts doc = extract_spec doc"
  by (simp add: extract_forecasts_parse_blocks extract_spec_def)

text \<open>C2: extraction succeeds exactly when every two-cell row of every forecast block
  holds the placeholder \<open>"-"\<close> or a decimal literal in the 64-bit range, and then
  returns, in document order, one forecast per block with the text of its first row as
  city name, the text of its last row as forecast text, and one measurement per two-cell
  row (name = first cell's text, value = 0 for the placeholder and the literal's value
  otherwise).\<close>

theorem extract_forecasts_result:
  "extract_forecasts doc = Inr fs \<longleftrightarrow>
     (\<forall>b \<in> set (forecast_blocks doc). block_ok b) \<and> fs = map forecast_of (forecast_blocks doc)"
  by (simp add: extract_forecasts_parse_blocks parse_blocks_Inr)

text \<open>C7: extraction is all-or-nothing: if some two-cell row of some forecast block holds
  a value that is neither the placeholder nor an acceptable literal, the result is an
  error and no forecast at all; and every error it returns is a \<open>ParseValueError\<close>
  naming the text of such a row.\<close>

theorem extract_forecasts_error:
  "(extract_forecasts doc = Inl e \<longrightarrow>
      (\<exists>b \<in> set (forecast_blocks doc). \<exists>r \<in> set (rows b).
         is_measurement_row r \<and> \<not> value_ok (value_text r) \<and>
         (\<exists>ie. e = ParseValueError (value_text r) ie))) \<and>
   ((\<exists>b \<in> set (forecast_blocks doc). \<exists>r \<in> set (rows b).
         is_measurement_row r \<and> \<not> value_ok (value_text r)) \<longrightarrow>
      (\<exists>e'. extract_forecasts doc = Inl e'))"
proof (intro conjI impI)
  assume "extract_forecasts doc = Inl e"
  then show "\<exists>b \<in> set (forecast_blocks doc). \<exists>r \<in> set (rows b).
      is_measurement_row r \<and> \<not> value_ok (value_text r) \<and>
      (\<exists>ie. e = ParseValueError (value_text r) ie)"
    by (simp add: extract_forecasts_parse_blocks parse_blocks_Inl)
next
  assume "\<exists>b \<in> set (forecast_blocks doc). \<exists>r \<in> set (rows b).
      is_measurement_row r \<and> \<not> value_ok (value_text r)"
  then have "\<not> (\<forall>b \<in> set (forecast_blocks doc). block_ok b)"
    by (auto simp: block_ok_def)
  then have "\<forall>fs. parse_blocks (forecast_blocks doc) \<noteq> Inr fs"
    by (simp add: parse_blocks_Inr)
  then show "\<exists>e'. extract_forecasts doc = Inl e'"
    by (cases "parse_blocks (forecast_blocks doc)") (auto simp: extract_forecasts_parse_blocks)
qed

text \<open>C8: on success, there are as many forecasts as forecast blocks, and each forecast
  has as many measurements as its block has two-cell rows.\<close>

theorem extract_forecasts_counts:
  assumes "extract_forecasts doc = Inr fs"
  shows "length fs = length (forecast_blocks doc) \<and>
    (\<forall>i < length fs. length (Values (fs ! i)) =
        length (filter is_measurement_row (rows (forecast_blocks doc ! i))))"
  using assms by (auto simp: extract_forecasts_parse_blocks parse_blocks_Inr forecast_of_def)

end
