(* ===== verification/Cache.thy ===== *)
theory Cache
  imports Extract
begin

text \<open>
  The cache store of the two refreshing variants and the on-demand cache of \<open>main.go\<close>.
  In \<open>src/unnamed/part_000\<close> the package variables \<open>cache\<close> (a slice, \<open>nil\<close> until
  the first successful rebuild) and \<open>cacheTimestamp\<close> sit behind a \<open>sync.RWMutex\<close>;
  \<open>rebuildCache\<close> holds the write lock across fetch, extraction and publication, and
  \<open>fetchCache\<close> holds the read lock while it looks at the slice, spawning
  \<open>go rebuildCache()\<close> on a miss. \<open>src/unnamed/part_001\<close> is the same without the
  timestamp. Here each operation is one atomic step on an explicit state (the locks make
  them atomic; the theory \<open>Concurrency\<close> checks that against an interleaving model).
  The fetch \<open>goquery.NewDocument(url)\<close> is an input of the step: the document, or the
  transport error's text.
\<close>

type_synonym fetch_result = "string + document"

record cache_state =
  cache :: "forecast list option"
  cacheTimestamp :: time

definition empty_cache :: cache_state where
  "empty_cache = \<lparr>cache = None, cacheTimestamp = 0\<rparr>"

text \<open>\<open>rebuildCache\<close> (part_000): the error it returns, and the state after it.\<close>

definition rebuildCache ::
  "fetch_result \<Rightarrow> time \<Rightarrow> cache_state \<Rightarrow> pollen_error option \<times> cache_state" where
  "rebuildCache fetched now st = (case fetched of
      Inl err \<Rightarrow> (Some (FetchError err), st)
    | Inr doc \<Rightarrow> (case extract_forecasts doc of
        Inl outerErr \<Rightarrow> (Some outerErr, st)
      | Inr forecasts \<Rightarrow> (None, st\<lparr>cache := Some forecasts, cacheTimestamp := now\<rparr>)))"

text \<open>\<open>fetchCache\<close> (part_000 and part_001): the result, and whether it spawned a
  rebuild goroutine.\<close>

definition fetchCache :: "forecast list option \<Rightarrow> (pollen_error + forecast list) \<times> bool" where
  "fetchCache c = (case c of None \<Rightarrow> (Inl CacheEmpty, True) | Some fs \<Rightarrow> (Inr fs, False))"

text \<open>The state of part_001: the slice \<open>cache\<close> behind \<open>cacheMutex\<close>, without a
  timestamp.\<close>

type_synonym cache_v1 = "forecast list option"

text \<open>\<open>fetchCache\<close> of part_001 (lines 62-74), the same code on that state.\<close>

definition fetchCache_v1 :: "cache_v1 \<Rightarrow> (pollen_error + forecast list) \<times> bool" where
  "fetchCache_v1 c = (case c of None \<Rightarrow> (Inl CacheEmpty, True) | Some fs \<Rightarrow> (Inr fs, False))"

text \<open>\<open>rebuildCache\<close> of part_001, whose state is the slice alone.\<close>

definition rebuildCache_v1 ::
  "fetch_result \<Rightarrow> cache_v1 \<Rightarrow> pollen_error option \<times> cache_v1" where
  "rebuildCache_v1 fetched c = (case fetched of
      Inl err \<Rightarrow> (Some (FetchError err), c)
    | Inr doc \<Rightarrow> (case extract_forecasts doc of
        Inl outerErr \<Rightarrow> (Some outerErr, c)
      | Inr forecasts \<Rightarrow> (None, Some forecasts)))"

text \<open>\<open>fetchParseAndJsonify\<close> of \<open>main.go\<close>: a hit returns the cached slice; a miss
  fetches (outside the mutex), extracts, and stores the result.\<close>

definition fetchParseAndJsonify ::
  "fetch_result \<Rightarrow> forecast list option \<Rightarrow> (pollen_error + forecast list) \<times> forecast list option"
where
  "fetchParseAndJsonify fetched c = (case c of
      Some cached \<Rightarrow> (Inr cached, c)
    | None \<Rightarrow> (case fetched of
        Inl err \<Rightarrow> (Inl (FetchError err), c)
      | Inr doc \<Rightarrow> (case extract_forecasts doc of
          Inl outerErr \<Rightarrow> (Inl outerErr, c)
        | Inr forecasts \<Rightarrow> (Inr forecasts, Some forecasts))))"

subsection \<open>Runs of the cache store\<close>

text \<open>A sequence of operations on the store of part_000, each atomic: a read by a
  request handler, or a rebuild (by the refresher or by a spawned goroutine) with the
  fetch's outcome and the clock. The run records what every read returned.\<close>

datatype cache_op = Read | Rebuild fetch_result time

fun cache_run :: "cache_state \<Rightarrow> cache_op list \<Rightarrow> cache_state \<times> (pollen_error + forecast list) list" where
  "cache_run st [] = (st, [])"
| "cache_run st (Read # ops) =
     (let (st', rs) = cache_run st ops in (st', fst (fetchCache (cache st)) # rs))"
| "cache_run st (Rebuild f now # ops) = cache_run (snd (rebuildCache f now st)) ops"

text \<open>The snapshot a history leaves: the extraction of its last rebuild whose fetch and
  extraction both succeeded, if any.\<close>

fun published :: "cache_op list \<Rightarrow> (forecast list \<times> time) option" where
  "published [] = None"
| "published (Read # ops) = published ops"
| "published (Rebuild f now # ops) = (case published ops of
      Some p \<Rightarrow> Some p
    | None \<Rightarrow> (case f of Inl _ \<Rightarrow> None
        | Inr doc \<Rightarrow> (case extract_forecasts doc of Inl _ \<Rightarrow> None | Inr fs \<Rightarrow> Some (fs, now))))"

subsection \<open>Single operations\<close>

lemma fetchCache_v1_eq: "fetchCache_v1 = fetchCache"
  by (rule ext) (simp add: fetchCache_v1_def fetchCache_def)

lemma rebuildCache_error_keeps:
  "rebuildCache f now st = (Some e, st') \<Longrightarrow> st' = st"
  by (auto simp: rebuildCache_def split: sum.splits)

lemma rebuildCache_ok:
  "rebuildCache f now st = (None, st') \<longleftrightarrow>
     (\<exists>doc fs. f = Inr doc \<and> extract_forecasts doc = Inr fs \<and>
        st' = st\<lparr>cache := Some fs, cacheTimestamp := now\<rparr>)"
  by (auto simp: rebuildCache_def split: sum.splits)

lemma cache_run_append:
  "cache_run st (ops @ ops') =
     (let (s1, r1) = cache_run st ops; (s2, r2) = cache_run s1 ops' in (s2, r1 @ r2))"
  by (induction st ops rule: cache_run.induct) (simp_all add: Let_def split: prod.splits)

lemma cache_run_state:
  "fst (cache_run st ops) = (case published ops of
      None \<Rightarrow> st
    | Some (fs, t) \<Rightarrow> st\<lparr>cache := Some fs, cacheTimestamp := t\<rparr>)"
proof (induction st ops rule: cache_run.induct)
  case (1 st)
  then show ?case by simp
next
  case (2 st ops)
  then show ?case by (cases "cache_run st ops") simp
next
  case (3 st f now ops)
  then show ?case
    by (simp add: rebuildCache_def split: option.splits sum.splits)
qed

subsection \<open>Properties of the cache store\<close>

text \<open>C9: from a cold start, after any sequence of reads and rebuilds the store holds
  exactly the snapshot and timestamp of the last rebuild whose fetch and extraction both
  succeeded (failed rebuilds change nothing, the last success wins wholesale), and a read
  returns that snapshot, or \<open>CacheEmpty\<close> if no rebuild has succeeded yet.\<close>

theorem cache_run_published:
  "fst (cache_run empty_cache ops) = (case published ops of
      None \<Rightarrow> empty_cache
    | Some (fs, t) \<Rightarrow> \<lparr>cache = Some fs, cacheTimestamp = t\<rparr>) \<and>
   last (snd (cache_run empty_cache (ops @ [Read]))) = (case published ops of
      None \<Rightarrow> Inl CacheEmpty
    | Some (fs, t) \<Rightarrow> Inr fs)"
proof
  show "fst (cache_run empty_cache ops) = (case published ops of
      None \<Rightarrow> empty_cache | Some (fs, t) \<Rightarrow> \<lparr>cache = Some fs, cacheTimestamp = t\<rparr>)"
    by (simp add: cache_run_state empty_cache_def split: option.splits)
next
  obtain s1 r1 where r: "cache_run empty_cache ops = (s1, r1)" by fastforce
  have "s1 = fst (cache_run empty_cache ops)" using r by simp
  then have "cache s1 = map_option fst (published ops)"
    by (simp add: cache_run_state empty_cache_def split: option.splits)
  then show "last (snd (cache_run empty_cache (ops @ [Read]))) = (case published ops of
      None \<Rightarrow> Inl CacheEmpty | Some (fs, t) \<Rightarrow> Inr fs)"
    using r by (simp add: cache_run_append fetchCache_def split: option.splits)
qed

text \<open>C10: a rebuild that fails (the fetch, or the extraction) leaves the store as it
  was, the last known good snapshot included, and returns the fetch's error or the
  extractor's error unchanged to its caller.\<close>

theorem rebuildCache_last_known_good:
  assumes "fst (rebuildCache f now st) = Some e"
  shows "snd (rebuildCache f now st) = st \<and>
    (case f of Inl err \<Rightarrow> e = FetchError err | Inr doc \<Rightarrow> extract_forecasts doc = Inl e)"
  using assms by (auto simp: rebuildCache_def split: sum.splits)

text \<open>C11: the variant without timestamp (part_000 against part_001) rebuilds the same
  slice and returns the same error: forgetting \<open>cacheTimestamp\<close>, part_000's
  \<open>rebuildCache\<close> refines part_001's.\<close>

theorem rebuildCache_v1_refines:
  "rebuildCache_v1 f (cache st) = (fst (rebuildCache f now st), cache (snd (rebuildCache f now st)))"
  by (simp add: rebuildCache_v1_def rebuildCache_def split: sum.splits)

text \<open>C12: \<open>main.go\<close>'s handler never fetches once its cache is set (the cached slice
  is served unchanged forever), and on a miss behaves as a rebuild followed by a read.\<close>

theorem fetchParseAndJsonify_eq:
  "fetchParseAndJsonify f c = (case c of
      Some cached \<Rightarrow> (Inr cached, c)
    | None \<Rightarrow> (case rebuildCache_v1 f None of
        (Some e, c') \<Rightarrow> (Inl e, c')
      | (None, c') \<Rightarrow> (fst (fetchCache c'), c')))"
  by (simp add: fetchParseAndJsonify_def rebuildCache_v1_def fetchCache_def
      split: option.splits sum.splits)

end
