(* ===== verification/Concurrency.thy ===== *)
theory Concurrency
  imports Cache
begin

text \<open>
  The goroutines of \<open>src/unnamed/part_000\<close> around the one cache, as an interleaving
  step relation. Request handlers (\<open>/\<close> and \<open>/api\<close>) call \<open>fetchCache\<close>, which
  takes the read lock, looks at \<open>cache\<close>, on a miss spawns \<open>go rebuildCache()\<close>,
  and releases the lock when it returns (\<open>defer\<close>); the handler then reads
  \<open>cacheTimestamp\<close> for its response without any lock. A rebuild (the periodic
  refresher's or a spawned one) takes the write lock, fetches and extracts, writes
  \<open>cache\<close>, then \<open>cacheTimestamp\<close>, and releases the lock. Each program counter below
  is one point between these actions; \<open>readers\<close> and \<open>writer\<close> are the state of the
  \<open>sync.RWMutex\<close> (\<open>RLock\<close> waits for no writer, \<open>Lock\<close> for no writer and no
  reader; Go's writer preference only removes interleavings, so the safety results hold for
  it too, and the interleaving that shows the stale timestamp is one Go allows). The ghost
  \<open>hist\<close> records every snapshot that was published with its timestamp.
\<close>

datatype pc =
    HStart | HLocked | HMiss | HHit "forecast list" | HGot "forecast list"
  | HDoneErr | HDone "forecast list" time
  | RStart | RLocked | RFetched "pollen_error + forecast list" | RCacheSet "forecast list"
  | RTsSet | RDone "pollen_error option"

record sys =
  threads :: "pc list"
  readers :: nat
  writer :: bool
  store :: cache_state
  clock :: time
  hist :: "(forecast list \<times> time) list"

definition init_sys :: sys where
  "init_sys = \<lparr>threads = [], readers = 0, writer = False, store = empty_cache, clock = 0, hist = []\<rparr>"

text \<open>What a rebuild gets from \<open>goquery.NewDocument\<close> followed by the extractor.\<close>

definition rebuild_outcome :: "fetch_result \<Rightarrow> pollen_error + forecast list" where
  "rebuild_outcome f = (case f of Inl err \<Rightarrow> Inl (FetchError err) | Inr doc \<Rightarrow> extract_forecasts doc)"

fun is_reading :: "pc \<Rightarrow> bool" where
  "is_reading HLocked = True"
| "is_reading HMiss = True"
| "is_reading (HHit v) = True"
| "is_reading p = False"

fun is_writing :: "pc \<Rightarrow> bool" where
  "is_writing RLocked = True"
| "is_writing (RFetched r) = True"
| "is_writing (RCacheSet fs) = True"
| "is_writing RTsSet = True"
| "is_writing p = False"

definition set_pc :: "nat \<Rightarrow> pc \<Rightarrow> sys \<Rightarrow> sys" where
  "set_pc i p s = s\<lparr>threads := (threads s)[i := p]\<rparr>"

inductive step :: "sys \<Rightarrow> sys \<Rightarrow> bool" where
  arrive: "step s (s\<lparr>threads := threads s @ [HStart]\<rparr>)"
| refresh: "step s (s\<lparr>threads := threads s @ [RStart]\<rparr>)"
| tick: "step s (s\<lparr>clock := Suc (clock s)\<rparr>)"
| rlock: "i < length (threads s) \<Longrightarrow> threads s ! i = HStart \<Longrightarrow> \<not> writer s \<Longrightarrow>
    step s ((set_pc i HLocked s)\<lparr>readers := Suc (readers s)\<rparr>)"
| miss: "i < length (threads s) \<Longrightarrow> threads s ! i = HLocked \<Longrightarrow> cache (store s) = None \<Longrightarrow>
    step s (s\<lparr>threads := (threads s)[i := HMiss] @ [RStart]\<rparr>)"
| hit: "i < length (threads s) \<Longrightarrow> threads s ! i = HLocked \<Longrightarrow> cache (store s) = Some v \<Longrightarrow>
    step s (set_pc i (HHit v) s)"
| runlock_miss: "i < length (threads s) \<Longrightarrow> threads s ! i = HMiss \<Longrightarrow>
    step s ((set_pc i HDoneErr s)\<lparr>readers := readers s - 1\<rparr>)"
| runlock_hit: "i < length (threads s) \<Longrightarrow> threads s ! i = HHit v \<Longrightarrow>
    step s ((set_pc i (HGot v) s)\<lparr>readers := readers s - 1\<rparr>)"
| read_ts: "i < length (threads s) \<Longrightarrow> threads s ! i = HGot v \<Longrightarrow>
    step s (set_pc i (HDone v (cacheTimestamp (store s))) s)"
| lock: "i < length (threads s) \<Longrightarrow> threads s ! i = RStart \<Longrightarrow> \<not> writer s \<Longrightarrow> readers s = 0 \<Longrightarrow>
    step s ((set_pc i RLocked s)\<lparr>writer := True\<rparr>)"
| fetch: "i < length (threads s) \<Longrightarrow> threads s ! i = RLocked \<Longrightarrow>
    step s (set_pc i (RFetched (rebuild_outcome f)) s)"
| fail: "i < length (threads s) \<Longrightarrow> threads s ! i = RFetched (Inl e) \<Longrightarrow>
    step s ((set_pc i (RDone (Some e)) s)\<lparr>writer := False\<rparr>)"
| set_cache: "i < length (threads s) \<Longrightarrow> threads s ! i = RFetched (Inr fs) \<Longrightarrow>
    step s ((set_pc i (RCacheSet fs) s)\<lparr>store := (store s)\<lparr>cache := Some fs\<rparr>\<rparr>)"
| set_ts: "i < length (threads s) \<Longrightarrow> threads s ! i = RCacheSet fs \<Longrightarrow>
    step s ((set_pc i RTsSet s)\<lparr>store := (store s)\<lparr>cacheTimestamp := clock s\<rparr>,
                                 hist := hist s @ [(fs, clock s)]\<rparr>)"
| unlock: "i < length (threads s) \<Longrightarrow> threads s ! i = RTsSet \<Longrightarrow>
    step s ((set_pc i (RDone None) s)\<lparr>writer := False\<rparr>)"

inductive reachable :: "sys \<Rightarrow> bool" where
  init: "reachable init_sys"
| step: "reachable s \<Longrightarrow> step s s' \<Longrightarrow> reachable s'"

subsection \<open>An executable scheduler\<close>

text \<open>One event per kind of step, naming the goroutine that moves; \<open>exec_event\<close>
  performs it when its guard holds (\<open>None\<close> when the goroutine is blocked or elsewhere).
  Lemma \<open>step_iff_exec_event\<close> shows that the events are exactly the steps, so a
  schedule (a list of events) is a run that \<open>simp\<close> can execute.\<close>

datatype event =
    EArrive | ERefresh | ETick | ERLock nat | ECheck nat | ERUnlock nat | EReadTs nat
  | ELock nat | EFetch nat fetch_result | EPublish nat | ESetTs nat | EUnlock nat

fun exec_event :: "sys \<Rightarrow> event \<Rightarrow> sys option" where
  "exec_event s EArrive = Some (s\<lparr>threads := threads s @ [HStart]\<rparr>)"
| "exec_event s ERefresh = Some (s\<lparr>threads := threads s @ [RStart]\<rparr>)"
| "exec_event s ETick = Some (s\<lparr>clock := Suc (clock s)\<rparr>)"
| "exec_event s (ERLock i) =
     (if i < length (threads s) \<and> threads s ! i = HStart \<and> \<not> writer s
      then Some ((set_pc i HLocked s)\<lparr>readers := Suc (readers s)\<rparr>) else None)"
| "exec_event s (ECheck i) =
     (if i < length (threads s) \<and> threads s ! i = HLocked
      then (case cache (store s) of
              None \<Rightarrow> Some (s\<lparr>threads := (threads s)[i := HMiss] @ [RStart]\<rparr>)
            | Some v \<Rightarrow> Some (set_pc i (HHit v) s))
      else None)"
| "exec_event s (ERUnlock i) =
     (if i < length (threads s)
      then (case threads s ! i of
              HMiss \<Rightarrow> Some ((set_pc i HDoneErr s)\<lparr>readers := readers s - 1\<rparr>)
            | HHit v \<Rightarrow> Some ((set_pc i (HGot v) s)\<lparr>readers := readers s - 1\<rparr>)
            | _ \<Rightarrow> None)
      else None)"
| "exec_event s (EReadTs i) =
     (if i < length (threads s)
      then (case threads s ! i of
              HGot v \<Rightarrow> Some (set_pc i (HDone v (cacheTimestamp (store s))) s)
            | _ \<Rightarrow> None)
      else None)"
| "exec_event s (ELock i) =
     (if i < length (threads s) \<and> threads s ! i = RStart \<and> \<not> writer s \<and> readers s = 0
      then Some ((set_pc i RLocked s)\<lparr>writer := True\<rparr>) else None)"
| "exec_event s (EFetch i f) =
     (if i < length (threads s) \<and> threads s ! i = RLocked
      then Some (set_pc i (RFetched (rebuild_outcome f)) s) else None)"
| "exec_event s (EPublish i) =
     (if i < length (threads s)
      then (case threads s ! i of
              RFetched (Inl e) \<Rightarrow> Some ((set_pc i (RDone (Some e)) s)\<lparr>writer := False\<rparr>)
            | RFetched (Inr fs) \<Rightarrow>
                Some ((set_pc i (RCacheSet fs) s)\<lparr>store := (store s)\<lparr>cache := Some fs\<rparr>\<rparr>)
            | _ \<Rightarrow> None)
      else None)"
| "exec_event s (ESetTs i) =
     (if i < length (threads s)
      then (case threads s ! i of
              RCacheSet fs \<Rightarrow> Some ((set_pc i RTsSet s)\<lparr>store := (store s)\<lparr>cacheTimestamp := clock s\<rparr>,
                                         hist := hist s @ [(fs, clock s)]\<rparr>)
            | _ \<Rightarrow> None)
      else None)"
| "exec_event s (EUnlock i) =
     (if i < length (threads s) \<and> threads s ! i = RTsSet
      then Some ((set_pc i (RDone None) s)\<lparr>writer := False\<rparr>) else None)"

fun exec_events :: "sys \<Rightarrow> event list \<Rightarrow> sys option" where
  "exec_events s [] = Some s"
| "exec_events s (e # es) = (case exec_event s e of None \<Rightarrow> None | Some s' \<Rightarrow> exec_events s' es)"

text \<open>Schedules in which the goroutines \<open>i\<close>, ..., \<open>i + m - 1\<close> take the read lock, or
  check the cache and release the lock, one after the other.\<close>

fun rlocks :: "nat \<Rightarrow> nat \<Rightarrow> event list" where
  "rlocks i 0 = []"
| "rlocks i (Suc m) = ERLock i # rlocks (Suc i) m"

fun check_releases :: "nat \<Rightarrow> nat \<Rightarrow> event list" where
  "check_releases i 0 = []"
| "check_releases i (Suc m) = ECheck i # ERUnlock i # check_releases (Suc i) m"

subsection \<open>The invariant\<close>

text \<open>The lock counters agree with the program counters; at most one goroutine is in the
  write section, never together with a reader; between its two writes a rebuild has put
  its slice in \<open>cache\<close>; otherwise \<open>cache\<close> and \<open>cacheTimestamp\<close> are the last
  published snapshot; and a reader that has looked at the slice still sees it there.\<close>

definition last_published :: "sys \<Rightarrow> forecast list option" where
  "last_published s = (if hist s = [] then None else Some (fst (last (hist s))))"

definition lock_inv :: "sys \<Rightarrow> bool" where
  "lock_inv s \<longleftrightarrow>
     readers s = length (filter is_reading (threads s)) \<and>
     length (filter is_writing (threads s)) = (if writer s then 1 else 0) \<and>
     (writer s \<longrightarrow> readers s = 0)"

definition data_inv :: "sys \<Rightarrow> bool" where
  "data_inv s \<longleftrightarrow>
     (\<forall>fs. RCacheSet fs \<in> set (threads s) \<longrightarrow> cache (store s) = Some fs) \<and>
     ((\<forall>fs. RCacheSet fs \<notin> set (threads s)) \<longrightarrow>
        cache (store s) = last_published s \<and>
        (hist s \<noteq> [] \<longrightarrow> cacheTimestamp (store s) = snd (last (hist s)))) \<and>
     (\<forall>v. HHit v \<in> set (threads s) \<longrightarrow> cache (store s) = Some v)"

definition sys_inv :: "sys \<Rightarrow> bool" where
  "sys_inv s \<longleftrightarrow> lock_inv s \<and> data_inv s"

text \<open>What a handler that holds a slice, or has built its response, knows about the
  publication history: the slice was published no later than the store's timestamp, and a
  reported timestamp is one a rebuild wrote. \<open>ts_inv\<close> adds that timestamps never run
  ahead of the clock and that the store's timestamp is a published one.\<close>

fun ts_ok :: "sys \<Rightarrow> pc \<Rightarrow> bool" where
  "ts_ok s (HGot v) = (\<exists>t'. (v, t') \<in> set (hist s) \<and> t' \<le> cacheTimestamp (store s))"
| "ts_ok s (HDone v t) = ((\<exists>t'. (v, t') \<in> set (hist s) \<and> t' \<le> t) \<and> t \<in> snd ` set (hist s))"
| "ts_ok s p = True"

definition ts_inv :: "sys \<Rightarrow> bool" where
  "ts_inv s \<longleftrightarrow> cacheTimestamp (store s) \<le> clock s \<and> (\<forall>x \<in> set (hist s). snd x \<le> clock s) \<and>
     (hist s \<noteq> [] \<longrightarrow> cacheTimestamp (store s) \<in> snd ` set (hist s)) \<and>
     (\<forall>p \<in> set (threads s). ts_ok s p)"

subsection \<open>The lock counters\<close>

lemma step_lock_inv: "step s s' \<Longrightarrow> lock_inv s \<Longrightarrow> lock_inv s'"
  by (induction rule: step.induct)
    (auto simp: lock_inv_def set_pc_def length_filter_update_eq split: if_splits)

lemma lock_inv_writing_unique:
  assumes "lock_inv s" "i < length (threads s)" "j < length (threads s)"
    "is_writing (threads s ! i)" "is_writing (threads s ! j)"
  shows "i = j"
  using assms filter_le1_unique [of is_writing "threads s" i j] by (auto simp: lock_inv_def)

lemma lock_inv_writing_no_reader:
  assumes "lock_inv s" "i < length (threads s)" "is_writing (threads s ! i)" "p \<in> set (threads s)"
  shows "\<not> is_reading p"
proof -
  have "threads s ! i \<in> set (filter is_writing (threads s))" using assms by simp
  then have "length (filter is_writing (threads s)) \<noteq> 0" by (metis length_0_conv empty_iff set_empty)
  with assms(1) have "writer s" "readers s = 0" by (auto simp: lock_inv_def split: if_splits)
  with assms(1,4) show ?thesis by (auto simp: lock_inv_def filter_empty_conv)
qed

lemma lock_inv_reading_no_writer:
  assumes "lock_inv s" "p \<in> set (threads s)" "is_reading p" "q \<in> set (threads s)"
  shows "\<not> is_writing q"
  using assms lock_inv_writing_no_reader [OF assms(1)] by (metis in_set_conv_nth)

subsection \<open>The data\<close>

lemma set_sub_update: "i < length xs \<Longrightarrow> set xs \<subseteq> insert (xs ! i) (set (xs[i := y]))"
  by (auto simp: in_set_conv_nth nth_list_update) (metis nth_list_update_neq)

lemma data_inv_fields [simp]:
  "data_inv (s\<lparr>readers := r\<rparr>) = data_inv s"
  "data_inv (s\<lparr>writer := w\<rparr>) = data_inv s"
  "data_inv (s\<lparr>clock := c\<rparr>) = data_inv s"
  by (simp_all add: data_inv_def last_published_def)

lemma data_inv_append:
  "data_inv s \<Longrightarrow> (\<forall>fs. q \<noteq> RCacheSet fs) \<Longrightarrow> (\<forall>v. q \<noteq> HHit v) \<Longrightarrow>
     data_inv (s\<lparr>threads := threads s @ [q]\<rparr>)"
  by (auto simp: data_inv_def last_published_def)

lemma data_inv_set_pc:
  assumes inv: "data_inv s" and i: "i < length (threads s)"
    and p: "\<forall>fs. threads s ! i \<noteq> RCacheSet fs"
    and q1: "\<forall>fs. q \<noteq> RCacheSet fs" and q2: "\<forall>v. q = HHit v \<longrightarrow> cache (store s) = Some v"
  shows "data_inv (set_pc i q s)"
proof -
  let ?ts = "threads s" and ?ts' = "(threads s)[i := q]"
  have sub1: "set ?ts' \<subseteq> insert q (set ?ts)" by (rule set_update_subset_insert)
  have sub2: "set ?ts \<subseteq> insert (?ts ! i) (set ?ts')" using i by (rule set_sub_update)
  have A: "\<forall>fs. RCacheSet fs \<in> set ?ts' \<longrightarrow> RCacheSet fs \<in> set ?ts" using sub1 q1 by blast
  have B: "\<forall>fs. RCacheSet fs \<in> set ?ts \<longrightarrow> RCacheSet fs \<in> set ?ts'"
  proof (intro allI impI)
    fix fs
    assume "RCacheSet fs \<in> set ?ts"
    with sub2 have "RCacheSet fs \<in> insert (?ts ! i) (set ?ts')" by (rule subsetD)
    with p show "RCacheSet fs \<in> set ?ts'" by (metis insertE)
  qed
  have C: "\<forall>v. HHit v \<in> set ?ts' \<longrightarrow> HHit v \<in> set ?ts \<or> q = HHit v" using sub1 by blast
  have rc: "(\<forall>fs. RCacheSet fs \<notin> set ?ts') \<longleftrightarrow> (\<forall>fs. RCacheSet fs \<notin> set ?ts)"
    using A B by blast
  have e1: "\<forall>fs. RCacheSet fs \<in> set ?ts' \<longrightarrow> cache (store s) = Some fs"
    using A inv by (auto simp: data_inv_def)
  have hh: "\<forall>v. HHit v \<in> set ?ts' \<longrightarrow> cache (store s) = Some v"
    using C inv q2 by (auto simp: data_inv_def)
  have e2: "(\<forall>fs. RCacheSet fs \<notin> set ?ts') \<longrightarrow> cache (store s) = last_published s \<and>
      (hist s \<noteq> [] \<longrightarrow> cacheTimestamp (store s) = snd (last (hist s)))"
    using rc inv by (simp add: data_inv_def)
  show ?thesis
    using e1 e2 hh by (simp add: data_inv_def set_pc_def last_published_def)
qed


lemma other_writer_absurd:
  assumes li: "lock_inv s" and i: "i < length (threads s)" and w: "is_writing (threads s ! i)"
    and z: "z \<in> set ((threads s)[i := q])" and wz: "is_writing z" and nq: "z \<noteq> q"
  shows False
proof -
  from in_set_update_cases [OF z] nq obtain j where
    j: "j < length (threads s)" "j \<noteq> i" "threads s ! j = z" by blast
  with wz have "is_writing (threads s ! j)" by simp
  from lock_inv_writing_unique [OF li i j(1) w this] j(2) show False by simp
qed

lemma no_reader_after_update:
  assumes li: "lock_inv s" and i: "i < length (threads s)" and w: "is_writing (threads s ! i)"
    and q: "\<not> is_reading q"
  shows "\<forall>v. HHit v \<notin> set ((threads s)[i := q])"
proof (intro allI notI)
  fix v
  assume "HHit v \<in> set ((threads s)[i := q])"
  with q set_update_subset_insert [of "threads s" i q] have "HHit v \<in> set (threads s)" by auto
  with lock_inv_writing_no_reader [OF li i w] show False by force
qed

lemma data_inv_set_cache:
  assumes li: "lock_inv s" and i: "i < length (threads s)"
    and p: "threads s ! i = RFetched (Inr fs)"
  shows "data_inv ((set_pc i (RCacheSet fs) s)\<lparr>store := (store s)\<lparr>cache := Some fs\<rparr>\<rparr>)"
proof -
  let ?ts' = "(threads s)[i := RCacheSet fs]"
  have w: "is_writing (threads s ! i)" using p by simp
  have e1: "\<forall>fs'. RCacheSet fs' \<in> set ?ts' \<longrightarrow> fs' = fs"
    using other_writer_absurd [OF li i w, of _ "RCacheSet fs"] by fastforce
  have hh: "\<forall>v. HHit v \<notin> set ?ts'" using no_reader_after_update [OF li i w] by simp
  have mem: "RCacheSet fs \<in> set ?ts'" using i by (rule set_update_memI)
  show ?thesis using e1 hh mem by (auto simp: data_inv_def set_pc_def)
qed

lemma data_inv_set_ts:
  assumes inv: "data_inv s" and li: "lock_inv s" and i: "i < length (threads s)"
    and p: "threads s ! i = RCacheSet fs"
  shows "data_inv ((set_pc i RTsSet s)\<lparr>store := (store s)\<lparr>cacheTimestamp := clock s\<rparr>,
           hist := hist s @ [(fs, clock s)]\<rparr>)"
proof -
  let ?ts' = "(threads s)[i := RTsSet]"
  have w: "is_writing (threads s ! i)" using p by simp
  have none: "\<forall>fs'. RCacheSet fs' \<notin> set ?ts'"
    using other_writer_absurd [OF li i w, of _ RTsSet] by fastforce
  have "RCacheSet fs \<in> set (threads s)" using i p by (metis nth_mem)
  then have c: "cache (store s) = Some fs" using inv by (simp add: data_inv_def)
  have hh: "\<forall>v. HHit v \<notin> set ?ts'" using no_reader_after_update [OF li i w] by simp
  show ?thesis using none c hh by (simp add: data_inv_def set_pc_def last_published_def)
qed

lemma step_data_inv: "step s s' \<Longrightarrow> lock_inv s \<Longrightarrow> data_inv s \<Longrightarrow> data_inv s'"
proof (induction rule: step.induct)
  case (arrive s)
  then show ?case by (simp add: data_inv_append)
next
  case (refresh s)
  then show ?case by (simp add: data_inv_append)
next
  case (tick s)
  then show ?case by simp
next
  case (miss i s)
  then have "data_inv (set_pc i HMiss s)" by (intro data_inv_set_pc) simp_all
  then have "data_inv ((set_pc i HMiss s)\<lparr>threads := threads (set_pc i HMiss s) @ [RStart]\<rparr>)"
    by (simp add: data_inv_append)
  then show ?case by (simp add: set_pc_def)
next
  case (set_cache i s fs)
  then show ?case by (intro data_inv_set_cache)
next
  case (set_ts i s fs)
  then show ?case by (intro data_inv_set_ts)
qed (simp_all add: data_inv_set_pc)

lemma step_sys_inv: "step s s' \<Longrightarrow> sys_inv s \<Longrightarrow> sys_inv s'"
  by (auto simp: sys_inv_def intro: step_lock_inv step_data_inv)

lemma reachable_sys_inv: "reachable s \<Longrightarrow> sys_inv s"
proof (induction rule: reachable.induct)
  case init
  then show ?case
    by (simp add: sys_inv_def lock_inv_def data_inv_def init_sys_def empty_cache_def last_published_def)
next
  case (step s s')
  then show ?case by (blast intro: step_sys_inv)
qed


lemma hit_published:
  assumes "sys_inv s" and "HHit v \<in> set (threads s)"
  shows "cache (store s) = Some v \<and> hist s \<noteq> [] \<and> last (hist s) = (v, cacheTimestamp (store s))"
proof -
  from assms(1) have li: "lock_inv s" and di: "data_inv s" by (simp_all add: sys_inv_def)
  have c: "cache (store s) = Some v" using di assms(2) by (simp add: data_inv_def)
  have "\<forall>fs. RCacheSet fs \<notin> set (threads s)"
    using lock_inv_reading_no_writer [OF li assms(2)] by force
  then have "cache (store s) = last_published s \<and>
      (hist s \<noteq> [] \<longrightarrow> cacheTimestamp (store s) = snd (last (hist s)))"
    using di by (simp add: data_inv_def)
  with c show ?thesis by (cases "last (hist s)") (auto simp: last_published_def split: if_splits)
qed

subsection \<open>The reported timestamp\<close>

lemma ts_ok_mono:
  "ts_ok s p \<Longrightarrow> set (hist s) \<subseteq> set (hist s') \<Longrightarrow> cacheTimestamp (store s) \<le> cacheTimestamp (store s') \<Longrightarrow>
   ts_ok s' p"
proof (induction s p rule: ts_ok.induct)
  case (1 s v)
  then show ?case by (auto intro: order.trans)
next
  case (2 s v t)
  then show ?case by auto
qed simp_all

lemma ts_ok_fields [simp]:
  "ts_ok (s\<lparr>threads := ts\<rparr>) p = ts_ok s p"
  "ts_ok (s\<lparr>readers := r\<rparr>) p = ts_ok s p"
  "ts_ok (s\<lparr>writer := w\<rparr>) p = ts_ok s p"
  "ts_ok (s\<lparr>clock := c\<rparr>) p = ts_ok s p"
  "ts_ok (s\<lparr>store := (store s)\<lparr>cache := x\<rparr>\<rparr>) p = ts_ok s p"
  by (cases p; simp)+

lemma ts_inv_fields [simp]:
  "ts_inv (s\<lparr>readers := r\<rparr>) = ts_inv s"
  "ts_inv (s\<lparr>writer := w\<rparr>) = ts_inv s"
  by (simp_all add: ts_inv_def)

lemma ts_inv_set_pc:
  "ts_inv s \<Longrightarrow> ts_ok s q \<Longrightarrow> ts_inv (set_pc i q s)"
  using set_update_subset_insert [of "threads s" i q]
  by (auto simp: ts_inv_def set_pc_def)

lemma step_ts_inv: "step s s' \<Longrightarrow> sys_inv s \<Longrightarrow> ts_inv s \<Longrightarrow> ts_inv s'"
proof (induction rule: step.induct)
  case (tick s)
  then show ?case by (auto simp: ts_inv_def)
next
  case (miss i s)
  then have "ts_inv (set_pc i HMiss s)" by (simp add: ts_inv_set_pc)
  then show ?case by (simp add: ts_inv_def set_pc_def)
next
  case (runlock_hit i s v)
  then have "HHit v \<in> set (threads s)" by (metis nth_mem)
  from hit_published [OF runlock_hit.prems(1) this]
  have "(v, cacheTimestamp (store s)) \<in> set (hist s)" by (metis last_in_set)
  then have "ts_ok s (HGot v)" by auto
  with runlock_hit.prems(2) show ?case by (simp add: ts_inv_set_pc)
next
  case (read_ts i s v)
  then have "HGot v \<in> set (threads s)" by (metis nth_mem)
  with read_ts.prems(2) have "ts_ok s (HGot v)" by (auto simp: ts_inv_def)
  then have "hist s \<noteq> []" by auto
  with \<open>ts_ok s (HGot v)\<close> read_ts.prems(2) have "ts_ok s (HDone v (cacheTimestamp (store s)))"
    by (auto simp: ts_inv_def)
  with read_ts.prems(2) show ?case by (simp add: ts_inv_set_pc)
next
  case (set_cache i s fs)
  let ?s' = "(set_pc i (RCacheSet fs) s)\<lparr>store := (store s)\<lparr>cache := Some fs\<rparr>\<rparr>"
  have mono: "\<And>p. ts_ok s p \<Longrightarrow> ts_ok ?s' p" by (erule ts_ok_mono) (simp_all add: set_pc_def)
  have "\<forall>p \<in> set ((threads s)[i := RCacheSet fs]). ts_ok s p"
    using set_cache.prems(2) set_update_subset_insert [of "threads s" i "RCacheSet fs"]
    by (auto simp: ts_inv_def)
  then show ?case using set_cache.prems(2) mono by (auto simp: ts_inv_def set_pc_def)
next
  case (set_ts i s fs)
  let ?s' = "(set_pc i RTsSet s)\<lparr>store := (store s)\<lparr>cacheTimestamp := clock s\<rparr>,
                                 hist := hist s @ [(fs, clock s)]\<rparr>"
  have mono: "\<And>p. ts_ok s p \<Longrightarrow> ts_ok ?s' p"
    by (rule ts_ok_mono) (use set_ts.prems(2) in \<open>auto simp: ts_inv_def\<close>)
  have "\<forall>p \<in> set ((threads s)[i := RTsSet]). ts_ok s p"
    using set_ts.prems(2) set_update_subset_insert [of "threads s" i RTsSet] by (auto simp: ts_inv_def)
  then show ?case using set_ts.prems(2) mono by (auto simp: ts_inv_def set_pc_def)
qed (auto simp: ts_inv_def ts_inv_set_pc [unfolded ts_inv_def])

lemma reachable_ts_inv: "reachable s \<Longrightarrow> ts_inv s"
proof (induction rule: reachable.induct)
  case init
  then show ?case by (simp add: ts_inv_def init_sys_def empty_cache_def)
next
  case (step s s')
  then show ?case by (blast intro: step_ts_inv reachable_sys_inv)
qed

subsection \<open>Schedules are runs\<close>

lemma exec_event_step: "exec_event s e = Some s' \<Longrightarrow> step s s'"
proof (cases e)
  case (ECheck i)
  assume "exec_event s e = Some s'"
  with ECheck show ?thesis
    by (auto simp: set_pc_def split: if_splits option.splits intro: step.miss step.hit [unfolded set_pc_def])
next
  case (ERUnlock i)
  assume "exec_event s e = Some s'"
  with ERUnlock show ?thesis
    by (auto split: if_splits pc.splits
        intro: step.runlock_miss [simplified] step.runlock_hit [simplified])
next
  case (EReadTs i)
  assume "exec_event s e = Some s'"
  with EReadTs show ?thesis by (auto split: if_splits pc.splits intro: step.read_ts)
next
  case (EPublish i)
  assume "exec_event s e = Some s'"
  with EPublish show ?thesis
    by (auto split: if_splits pc.splits sum.splits intro: step.fail step.set_cache)
next
  case (ESetTs i)
  assume "exec_event s e = Some s'"
  with ESetTs show ?thesis by (auto split: if_splits pc.splits intro: step.set_ts)
qed (auto split: if_splits intro: step.intros)

lemma step_exec_event: "step s s' \<Longrightarrow> \<exists>e. exec_event s e = Some s'"
proof (induction rule: step.induct)
  case (arrive s)
  then show ?case by (metis exec_event.simps(1))
next
  case (refresh s)
  then show ?case by (metis exec_event.simps(2))
next
  case (tick s)
  then show ?case by (metis exec_event.simps(3))
next
  case (rlock i s)
  then show ?case by (intro exI [of _ "ERLock i"]) simp
next
  case (miss i s)
  then show ?case by (intro exI [of _ "ECheck i"]) simp
next
  case (hit i s v)
  then show ?case by (intro exI [of _ "ECheck i"]) simp
next
  case (runlock_miss i s)
  then show ?case by (intro exI [of _ "ERUnlock i"]) simp
next
  case (runlock_hit i s v)
  then show ?case by (intro exI [of _ "ERUnlock i"]) simp
next
  case (read_ts i s v)
  then show ?case by (intro exI [of _ "EReadTs i"]) simp
next
  case (lock i s)
  then show ?case by (intro exI [of _ "ELock i"]) simp
next
  case (fetch i s f)
  then show ?case by (intro exI [of _ "EFetch i f"]) simp
next
  case (fail i s e)
  then show ?case by (intro exI [of _ "EPublish i"]) simp
next
  case (set_cache i s fs)
  then show ?case by (intro exI [of _ "EPublish i"]) simp
next
  case (set_ts i s fs)
  then show ?case by (intro exI [of _ "ESetTs i"]) simp
next
  case (unlock i s)
  then show ?case by (intro exI [of _ "EUnlock i"]) simp
qed

lemma exec_events_reachable:
  "reachable s \<Longrightarrow> exec_events s es = Some s' \<Longrightarrow> reachable s'"
proof (induction es arbitrary: s)
  case Nil
  then show ?case by simp
next
  case (Cons e es)
  then obtain s1 where s1: "exec_event s e = Some s1" "exec_events s1 es = Some s'"
    by (auto split: option.splits)
  from Cons.prems(1) exec_event_step [OF s1(1)] have "reachable s1" by (rule reachable.step)
  then show ?case using s1(2) by (rule Cons.IH)
qed

subsection \<open>Runs of many handlers\<close>

lemma arrive_all:
  "exec_events s (replicate m EArrive) = Some (s\<lparr>threads := threads s @ replicate m HStart\<rparr>)"
  by (induction m arbitrary: s) simp_all

lemma rlock_all:
  assumes "\<not> writer s" and "threads s = xs @ replicate m HStart"
  shows "exec_events s (rlocks (length xs) m) =
    Some (s\<lparr>threads := xs @ replicate m HLocked, readers := readers s + m\<rparr>)"
  using assms
proof (induction m arbitrary: xs s)
  case (Suc m)
  let ?s1 = "(set_pc (length xs) HLocked s)\<lparr>readers := Suc (readers s)\<rparr>"
  have t1: "threads ?s1 = (xs @ [HLocked]) @ replicate m HStart"
    using Suc.prems(2) by (simp add: set_pc_def list_update_append)
  have e1: "exec_event s (ERLock (length xs)) = Some ?s1"
    using Suc.prems by (simp add: nth_append)
  have "exec_events ?s1 (rlocks (length (xs @ [HLocked])) m) =
      Some (?s1\<lparr>threads := (xs @ [HLocked]) @ replicate m HLocked, readers := readers ?s1 + m\<rparr>)"
    using Suc.IH [of ?s1 "xs @ [HLocked]"] Suc.prems(1) t1 by (simp add: set_pc_def)
  then show ?case using e1 by (simp add: set_pc_def)
qed simp

lemma exec_events_Cons_Some: "exec_event s e = Some s1 \<Longrightarrow> exec_events s (e # es) = exec_events s1 es"
  by simp

lemma check_release_all:
  assumes "cache (store s) = None" and "threads s = xs @ replicate m HLocked @ ys"
  shows "exec_events s (check_releases (length xs) m) =
    Some (s\<lparr>threads := xs @ replicate m HDoneErr @ ys @ replicate m RStart, readers := readers s - m\<rparr>)"
  using assms
proof (induction m arbitrary: xs ys s)
  case (Suc m)
  let ?s1 = "s\<lparr>threads := xs @ [HMiss] @ replicate m HLocked @ ys @ [RStart]\<rparr>"
  let ?s2 = "(set_pc (length xs) HDoneErr ?s1)\<lparr>readers := readers ?s1 - 1\<rparr>"
  have e1: "exec_event s (ECheck (length xs)) = Some ?s1"
    using Suc.prems by (simp add: nth_append list_update_append)
  have e2: "exec_event ?s1 (ERUnlock (length xs)) = Some ?s2" by (simp add: nth_append)
  have t2: "threads ?s2 = (xs @ [HDoneErr]) @ replicate m HLocked @ (ys @ [RStart])"
    by (simp add: set_pc_def list_update_append)
  have "exec_events ?s2 (check_releases (length (xs @ [HDoneErr])) m) =
      Some (?s2\<lparr>threads := (xs @ [HDoneErr]) @ replicate m HDoneErr @ (ys @ [RStart]) @ replicate m RStart,
                 readers := readers ?s2 - m\<rparr>)"
    using Suc.IH [of ?s2 "xs @ [HDoneErr]" "ys @ [RStart]"] Suc.prems(1) t2 by (simp add: set_pc_def)
  then show ?case
    by (simp only: check_releases.simps exec_events_Cons_Some [OF e1] exec_events_Cons_Some [OF e2])
       (simp add: set_pc_def)
qed simp


subsection \<open>Properties of the concurrent cache\<close>

lemma step_iff_exec_event: "step s s' \<longleftrightarrow> (\<exists>e. exec_event s e = Some s')"
  using exec_event_step step_exec_event by blast

text \<open>C13: in every reachable state the \<open>RWMutex\<close> does its work: at most one
  rebuild is between \<open>Lock\<close> and \<open>Unlock\<close>, and while one is, no handler is between
  \<open>RLock\<close> and \<open>RUnlock\<close>; so rebuilds triggered by the timer and by cache misses
  are serialised.\<close>

theorem rwmutex_exclusion:
  assumes "reachable s" and "i < length (threads s)" and "j < length (threads s)"
    and "is_writing (threads s ! i)"
  shows "(is_writing (threads s ! j) \<longrightarrow> i = j) \<and> \<not> is_reading (threads s ! j)"
proof -
  from assms(1) have li: "lock_inv s" by (simp add: reachable_sys_inv [THEN sys_inv_def [THEN iffD1]])
  have "\<not> is_reading (threads s ! j)"
    using lock_inv_writing_no_reader [OF li assms(2,4)] assms(3) by simp
  then show ?thesis using lock_inv_writing_unique [OF li assms(2,3,4)] by blast
qed

theorem rwmutex_exclusion_witness:
  "is_writing (threads (the (exec_events init_sys [ERefresh, ELock 0])) ! 0) \<and>
   \<not> is_reading (threads (the (exec_events init_sys [ERefresh, ELock 0])) ! 0)"
proof -
  let ?s = "the (exec_events init_sys [ERefresh, ELock 0])"
  have e: "exec_events init_sys [ERefresh, ELock 0] = Some ?s"
    by (simp add: init_sys_def set_pc_def)
  have r: "reachable ?s" by (rule exec_events_reachable [OF reachable.init e])
  have w: "is_writing (threads ?s ! 0)" and l: "0 < length (threads ?s)"
    by (simp_all add: init_sys_def set_pc_def)
  from rwmutex_exclusion [OF r l l w] w show ?thesis by blast
qed

text \<open>C14: no handler ever sees a half-published snapshot: whenever a handler holds the
  read lock after looking at the cache, what it saw is the last snapshot a rebuild finished
  publishing, and the timestamp in the store is that rebuild's.\<close>

theorem reader_sees_published:
  assumes "reachable s" and "HHit v \<in> set (threads s)"
  shows "cache (store s) = Some v \<and> hist s \<noteq> [] \<and> last (hist s) = (v, cacheTimestamp (store s))"
  using hit_published [OF reachable_sys_inv [OF assms(1)] assms(2)] .

text \<open>C15: a handler that holds the read lock never waits for anything else: checking
  the cache and releasing the lock are always enabled, and on a miss they end in the
  \<open>CacheEmpty\<close> response with exactly one rebuild goroutine spawned, on a hit with the
  cached slice in hand.\<close>

theorem handler_check_progress:
  assumes "i < length (threads s)" and "threads s ! i = HLocked"
  shows "\<exists>s2. exec_events s [ECheck i, ERUnlock i] = Some s2 \<and>
    threads s2 = (case cache (store s) of
        None \<Rightarrow> (threads s)[i := HDoneErr] @ [RStart]
      | Some v \<Rightarrow> (threads s)[i := HGot v])"
  using assms by (cases "cache (store s)") (simp_all add: set_pc_def nth_append list_update_append)

text \<open>C23: the write section of \<open>rebuildCache\<close> terminates on its own: once a rebuild
  holds the write lock it finishes in at most four of its own steps, whatever the other
  goroutines do, and on both exits (the error returns and the normal return) the deferred
  \<open>Unlock\<close> releases the lock.\<close>

theorem rebuild_completes:
  assumes "i < length (threads s)" and "threads s ! i = RLocked"
  shows "\<exists>s2. exec_events s (case rebuild_outcome f of
        Inl _ \<Rightarrow> [EFetch i f, EPublish i]
      | Inr _ \<Rightarrow> [EFetch i f, EPublish i, ESetTs i, EUnlock i]) = Some s2 \<and>
    threads s2 = (threads s)[i := RDone (case rebuild_outcome f of Inl e \<Rightarrow> Some e | Inr _ \<Rightarrow> None)] \<and>
    \<not> writer s2"
  using assms by (cases "rebuild_outcome f") (simp_all add: set_pc_def)

theorem rebuild_completes_witness:
  "\<exists>s2. exec_events (the (exec_events init_sys [ERefresh, ELock 0])) [EFetch 0 (Inl ''timeout''), EPublish 0]
     = Some s2 \<and> threads s2 = [RDone (Some (FetchError ''timeout''))] \<and> \<not> writer s2"
proof -
  let ?s = "the (exec_events init_sys [ERefresh, ELock 0])"
  have i: "0 < length (threads ?s)" "threads ?s ! 0 = RLocked" and t: "threads ?s = [RLocked]"
    by (simp_all add: init_sys_def set_pc_def)
  have o: "rebuild_outcome (Inl ''timeout'') = Inl (FetchError ''timeout'')"
    by (simp add: rebuild_outcome_def)
  from rebuild_completes [OF i, of "Inl ''timeout''"] show ?thesis unfolding o t by simp
qed

text \<open>C30: reads do not exclude each other and a miss does not wait (spec, section 8): for
  every number \<open>n\<close> of requests arriving at a cold cache, all \<open>n\<close> handlers can hold the
  read lock at once, and all of them then answer \<open>CacheEmpty\<close>, each spawning its own
  rebuild, without any rebuild having to run first.\<close>

theorem concurrent_cold_reads:
  "\<exists>s s'. reachable s \<and> threads s = replicate n HLocked \<and> readers s = n \<and>
     reachable s' \<and> threads s' = replicate n HDoneErr @ replicate n RStart \<and> readers s' = 0 \<and>
     cache (store s') = None"
proof -
  let ?st0 = "init_sys\<lparr>threads := replicate n HStart\<rparr>"
  let ?st1 = "?st0\<lparr>threads := replicate n HLocked, readers := n\<rparr>"
  let ?st2 = "?st1\<lparr>threads := replicate n HDoneErr @ replicate n RStart, readers := 0\<rparr>"
  have i: "threads init_sys = []" "\<not> writer init_sys" "readers init_sys = 0"
    "cache (store init_sys) = None"
    by (simp_all add: init_sys_def empty_cache_def)
  have a: "exec_events init_sys (replicate n EArrive) = Some ?st0"
    using arrive_all [of init_sys n] i(1) by simp
  have b: "exec_events ?st0 (rlocks 0 n) = Some ?st1"
    using rlock_all [of ?st0 "[]" n] i by simp
  have c: "exec_events ?st1 (check_releases 0 n) = Some ?st2"
    using check_release_all [of ?st1 "[]" n "[]"] i by simp
  have r0: "reachable ?st0" by (rule exec_events_reachable [OF reachable.init a])
  have r: "reachable ?st1" by (rule exec_events_reachable [OF r0 b])
  have r': "reachable ?st2" by (rule exec_events_reachable [OF r c])
  show ?thesis
  proof (intro exI conjI)
    show "reachable ?st1" by (rule r)
    show "reachable ?st2" by (rule r')
  qed (simp_all add: i)
qed

text \<open>C31: reads are idempotent (spec, section 8): any two handlers that hold the read lock
  after looking at the cache hold the same slice, so two reads with no write between them
  return identical snapshots.\<close>

theorem concurrent_reads_agree:
  assumes "reachable s" and "HHit v \<in> set (threads s)" and "HHit w \<in> set (threads s)"
  shows "v = w"
proof -
  have "\<forall>u. HHit u \<in> set (threads s) \<longrightarrow> cache (store s) = Some u"
    using reachable_sys_inv [OF assms(1)] by (simp add: sys_inv_def data_inv_def)
  then have "cache (store s) = Some v" "cache (store s) = Some w" using assms(2,3) by blast+
  then show ?thesis by simp
qed

theorem concurrent_reads_agree_witness:
  "threads (the (exec_events init_sys
     [ERefresh, ELock 0, EFetch 0 (Inr []), EPublish 0, ESetTs 0, EUnlock 0,
      EArrive, EArrive, ERLock 1, ERLock 2, ECheck 1, ECheck 2])) = [RDone None, HHit [], HHit []]"
proof -
  let ?es = "[ERefresh, ELock 0, EFetch 0 (Inr []), EPublish 0, ESetTs 0, EUnlock 0,
      EArrive, EArrive, ERLock 1, ERLock 2, ECheck 1, ECheck 2]"
  let ?s = "the (exec_events init_sys ?es)"
  have e: "exec_events init_sys ?es = Some ?s"
    by (simp add: init_sys_def set_pc_def rebuild_outcome_def empty_cache_def extract_eval_simps)
  have r: "reachable ?s" by (rule exec_events_reachable [OF reachable.init e])
  have t: "threads ?s = [RDone None, HHit [], HHit []]"
    by (simp add: init_sys_def set_pc_def rebuild_outcome_def empty_cache_def extract_eval_simps)
  have "HHit [] \<in> set (threads ?s)" using t by simp
  from concurrent_reads_agree [OF r this this] t show ?thesis by simp
qed

text \<open>C37: every \<open>X-Cache-Timestamp\<close> a handler of part_000 reports is the time of a
  rebuild that published a snapshot, never the zero value of \<open>cacheTimestamp\<close>, and it
  is never older than the publication of the slice it accompanies: the race of C16 can make
  the timestamp newer than the body, never older.\<close>

theorem reported_timestamp_published:
  assumes "reachable s" and "HDone v t \<in> set (threads s)"
  shows "(\<exists>t'. (v, t') \<in> set (hist s) \<and> t' \<le> t) \<and> (\<exists>v'. (v', t) \<in> set (hist s))"
  using reachable_ts_inv [OF assms(1)] assms(2) by (force simp: ts_inv_def)

theorem reported_timestamp_published_witness:
  "HDone [] 0 \<in> set (threads (the (exec_events init_sys
      [ERefresh, ELock 0, EFetch 0 (Inr []), EPublish 0, ESetTs 0, EUnlock 0,
       EArrive, ERLock 1, ECheck 1, ERUnlock 1, EReadTs 1]))) \<and>
   (\<exists>t'. ([], t') \<in> set (hist (the (exec_events init_sys
      [ERefresh, ELock 0, EFetch 0 (Inr []), EPublish 0, ESetTs 0, EUnlock 0,
       EArrive, ERLock 1, ECheck 1, ERUnlock 1, EReadTs 1]))) \<and> t' \<le> 0)"
proof -
  let ?es = "[ERefresh, ELock 0, EFetch 0 (Inr []), EPublish 0, ESetTs 0, EUnlock 0,
       EArrive, ERLock 1, ECheck 1, ERUnlock 1, EReadTs 1]"
  let ?s = "the (exec_events init_sys ?es)"
  have e: "exec_events init_sys ?es = Some ?s"
    by (simp add: init_sys_def set_pc_def rebuild_outcome_def empty_cache_def extract_eval_simps)
  have r: "reachable ?s" by (rule exec_events_reachable [OF reachable.init e])
  have h: "HDone [] 0 \<in> set (threads ?s)"
    by (simp add: init_sys_def set_pc_def rebuild_outcome_def empty_cache_def extract_eval_simps)
  from reported_timestamp_published [OF r h] h show ?thesis by blast
qed

end
