(* ===== verification/Scheduler.thy ===== *)
theory Scheduler
  imports Cache
begin

text \<open>
  The periodic refresher \<open>refreshCacheJob\<close> of \<open>src/unnamed/part_000\<close> (lines 97-111)
  and of \<open>src/unnamed/part_001\<close> (lines 77-89). The loop never ends by itself, so a run
  is modelled over a finite list of fetch outcomes, one per loop iteration: the list is
  the fuel, and the run ends either with the job still \<open>Running\<close> (the fuel is spent) or
  with the process gone, because \<open>log.Fatalln\<close> exits it on the first failed rebuild.
  part_000 rebuilds first and then waits for a tick of \<open>time.Tick(10 * time.Minute)\<close>
  (a new ticker each iteration, first tick one interval after its creation); part_001
  waits for the first tick of a single ticker before its first rebuild. Rebuilds are taken
  as instantaneous, so the \<open>k\<close>-th rebuild of part_000 runs at \<open>start + k * tick_interval\<close>
  and that of part_001 at \<open>start + (k + 1) * tick_interval\<close>; time is in seconds.
\<close>

datatype job_status = Running | Exited pollen_error

definition tick_interval :: time where
  "tick_interval = 10 * 60"

text \<open>part_000: rebuild at time \<open>t\<close>, then exit on error or wait one interval.\<close>

fun refreshCacheJob :: "time \<Rightarrow> fetch_result list \<Rightarrow> cache_state \<Rightarrow> cache_state \<times> job_status" where
  "refreshCacheJob t [] st = (st, Running)"
| "refreshCacheJob t (f # fs) st = (case rebuildCache f t st of
      (Some err, st') \<Rightarrow> (st', Exited err)
    | (None, st') \<Rightarrow> refreshCacheJob (t + tick_interval) fs st')"

text \<open>part_001: wait for a tick, then rebuild (the slice alone, no timestamp).\<close>

fun refreshCacheJob_v1 ::
  "fetch_result list \<Rightarrow> forecast list option \<Rightarrow> forecast list option \<times> job_status" where
  "refreshCacheJob_v1 [] c = (c, Running)"
| "refreshCacheJob_v1 (f # fs) c = (case rebuildCache_v1 f c of
      (Some err, c') \<Rightarrow> (c', Exited err)
    | (None, c') \<Rightarrow> refreshCacheJob_v1 fs c')"

text \<open>Whether a fetch outcome makes a rebuild succeed, and the snapshot it publishes.\<close>

definition rebuild_ok :: "fetch_result \<Rightarrow> bool" where
  "rebuild_ok f = (case f of Inl _ \<Rightarrow> False | Inr doc \<Rightarrow> (case extract_forecasts doc of
      Inl _ \<Rightarrow> False | Inr _ \<Rightarrow> True))"

definition rebuild_err :: "fetch_result \<Rightarrow> pollen_error" where
  "rebuild_err f = (case f of Inl err \<Rightarrow> FetchError err | Inr doc \<Rightarrow> (case extract_forecasts doc of
      Inl e \<Rightarrow> e | Inr _ \<Rightarrow> CacheEmpty))"

definition rebuild_snapshot :: "fetch_result \<Rightarrow> forecast list" where
  "rebuild_snapshot f = (case f of Inl _ \<Rightarrow> [] | Inr doc \<Rightarrow> (case extract_forecasts doc of
      Inl _ \<Rightarrow> [] | Inr fs \<Rightarrow> fs))"

text \<open>The store after a run of successful rebuilds from time \<open>t\<close>, one interval apart:
  the snapshot of the last one, stamped with its time.\<close>

definition job_after :: "time \<Rightarrow> fetch_result list \<Rightarrow> cache_state \<Rightarrow> cache_state" where
  "job_after t oks st = (case oks of [] \<Rightarrow> st
     | _ \<Rightarrow> st\<lparr>cache := Some (rebuild_snapshot (last oks)),
              cacheTimestamp := t + (length oks - 1) * tick_interval\<rparr>)"

subsection \<open>Runs of the job\<close>

lemma rebuildCache_by_ok:
  "rebuildCache f t st = (if rebuild_ok f
     then (None, st\<lparr>cache := Some (rebuild_snapshot f), cacheTimestamp := t\<rparr>)
     else (Some (rebuild_err f), st))"
  by (simp add: rebuildCache_def rebuild_ok_def rebuild_err_def rebuild_snapshot_def
      split: sum.splits)

lemma rebuildCache_v1_by_ok:
  "rebuildCache_v1 f c = (if rebuild_ok f
     then (None, Some (rebuild_snapshot f)) else (Some (rebuild_err f), c))"
  by (simp add: rebuildCache_v1_def rebuild_ok_def rebuild_err_def rebuild_snapshot_def
      split: sum.splits)

lemma refreshCacheJob_append_ok:
  "list_all rebuild_ok pre \<Longrightarrow>
   refreshCacheJob t (pre @ fs) st =
     refreshCacheJob (t + length pre * tick_interval) fs (job_after t pre st)"
proof (induction pre arbitrary: t st)
  case Nil
  then show ?case by (simp add: job_after_def)
next
  case (Cons a pre)
  then have "refreshCacheJob t ((a # pre) @ fs) st =
      refreshCacheJob (t + tick_interval + length pre * tick_interval) fs
        (job_after (t + tick_interval) pre
           (st\<lparr>cache := Some (rebuild_snapshot a), cacheTimestamp := t\<rparr>))"
    by (simp add: rebuildCache_by_ok)
  moreover have "job_after (t + tick_interval) pre
      (st\<lparr>cache := Some (rebuild_snapshot a), cacheTimestamp := t\<rparr>) = job_after t (a # pre) st"
    by (cases pre) (simp_all add: job_after_def)
  ultimately show ?case by (simp add: algebra_simps)
qed

lemma refreshCacheJob_run:
  "refreshCacheJob t fs st = (job_after t (takeWhile rebuild_ok fs) st,
     case dropWhile rebuild_ok fs of [] \<Rightarrow> Running | f # _ \<Rightarrow> Exited (rebuild_err f))"
proof -
  have ok: "list_all rebuild_ok (takeWhile rebuild_ok fs)"
    by (auto simp: list_all_iff dest: set_takeWhileD)
  have "refreshCacheJob t fs st = refreshCacheJob (t + length (takeWhile rebuild_ok fs) * tick_interval)
      (dropWhile rebuild_ok fs) (job_after t (takeWhile rebuild_ok fs) st)"
    using refreshCacheJob_append_ok [OF ok, of t "dropWhile rebuild_ok fs" st] by simp
  then show ?thesis
  proof (cases "dropWhile rebuild_ok fs")
    case Nil
    with \<open>refreshCacheJob t fs st = _\<close> show ?thesis by (simp only: list.case refreshCacheJob.simps)
  next
    case (Cons f post)
    then have "\<not> rebuild_ok f" by (simp add: dropWhile_eq_Cons_conv)
    with Cons show ?thesis using \<open>refreshCacheJob t fs st = _\<close> by (simp add: rebuildCache_by_ok)
  qed
qed

lemma takeWhile_first_failure:
  "list_all P pre \<Longrightarrow> \<not> P f \<Longrightarrow>
     takeWhile P (pre @ f # post) = pre \<and> dropWhile P (pre @ f # post) = f # post"
  by (simp add: list_all_iff takeWhile_append2 dropWhile_append2)

lemma takeWhile_all: "list_all P (takeWhile P xs)"
  by (auto simp: list_all_iff dest: set_takeWhileD)

lemma refreshCacheJob_Running_after:
  assumes "refreshCacheJob t fs st = (st', Running)"
  shows "list_all rebuild_ok fs \<and> st' = job_after t fs st"
proof -
  have dw: "dropWhile rebuild_ok fs = []"
    using assms unfolding refreshCacheJob_run by (auto split: list.splits)
  then have all: "list_all rebuild_ok fs" by (simp add: list_all_iff)
  then have "takeWhile rebuild_ok fs = fs" by (simp add: list_all_iff)
  with all assms show ?thesis unfolding refreshCacheJob_run by simp
qed

subsection \<open>Properties of the refresher\<close>

text \<open>C17: with the fatal policy of the code, the refresher of part_000 ends the process
  exactly at the first rebuild that fails (fetch or extraction), with that rebuild's
  error; the store it leaves is the snapshot and time of the last successful rebuild
  before it, or the store it started from.\<close>

theorem refreshCacheJob_exits_first_failure:
  "refreshCacheJob t fs st = (st', Exited e) \<longleftrightarrow>
   (\<exists>pre f post. fs = pre @ f # post \<and> list_all rebuild_ok pre \<and> \<not> rebuild_ok f \<and>
      e = rebuild_err f \<and> st' = job_after t pre st)"
proof
  assume h: "refreshCacheJob t fs st = (st', Exited e)"
  obtain f post where d: "dropWhile rebuild_ok fs = f # post" and ee: "e = rebuild_err f"
    using h unfolding refreshCacheJob_run by (auto split: list.splits)
  have "fs = takeWhile rebuild_ok fs @ f # post"
    using takeWhile_dropWhile_id [of rebuild_ok fs] d by simp
  moreover have "\<not> rebuild_ok f" using d by (simp add: dropWhile_eq_Cons_conv)
  moreover have "st' = job_after t (takeWhile rebuild_ok fs) st"
    using h unfolding refreshCacheJob_run by simp
  ultimately show "\<exists>pre f post. fs = pre @ f # post \<and> list_all rebuild_ok pre \<and>
      \<not> rebuild_ok f \<and> e = rebuild_err f \<and> st' = job_after t pre st"
    using ee takeWhile_all by blast
next
  assume "\<exists>pre f post. fs = pre @ f # post \<and> list_all rebuild_ok pre \<and> \<not> rebuild_ok f \<and>
      e = rebuild_err f \<and> st' = job_after t pre st"
  then obtain pre f post where "fs = pre @ f # post" "list_all rebuild_ok pre" "\<not> rebuild_ok f"
      "e = rebuild_err f" "st' = job_after t pre st" by blast
  then show "refreshCacheJob t fs st = (st', Exited e)"
    using takeWhile_first_failure [of rebuild_ok pre f post] by (simp add: refreshCacheJob_run)
qed

text \<open>C18: the refresher is still running after a sequence of iterations exactly when
  every rebuild of it succeeded; the store then holds the last rebuild's snapshot,
  stamped with the time of that rebuild.\<close>

theorem refreshCacheJob_running:
  "refreshCacheJob t fs st = (st', Running) \<longleftrightarrow> list_all rebuild_ok fs \<and> st' = job_after t fs st"
proof (cases "list_all rebuild_ok fs")
  case True
  then have tw: "takeWhile rebuild_ok fs = fs" and dw: "dropWhile rebuild_ok fs = []"
    by (simp_all add: list_all_iff)
  show ?thesis unfolding refreshCacheJob_run tw dw using True by auto
next
  case False
  then obtain f post where "dropWhile rebuild_ok fs = f # post"
    by (cases "dropWhile rebuild_ok fs") (simp_all add: list_all_iff)
  with False show ?thesis by (simp add: refreshCacheJob_run)
qed

text \<open>C19: while the refresher of part_000 runs, the timestamp it leaves is never a full
  interval old: at any time \<open>T\<close> between the last rebuild and the next tick, the store
  holds the last rebuild's snapshot and \<open>T - cacheTimestamp < 10 minutes\<close>.\<close>

theorem refreshCacheJob_fresh:
  assumes "refreshCacheJob t0 fs st = (st', Running)" and "fs \<noteq> []"
    and "t0 + (length fs - 1) * tick_interval \<le> T" and "T < t0 + length fs * tick_interval"
  shows "cacheTimestamp st' \<le> T \<and> T - cacheTimestamp st' < tick_interval \<and>
    cache st' = Some (rebuild_snapshot (last fs))"
proof -
  have st': "st' = job_after t0 fs st" using refreshCacheJob_Running_after [OF assms(1)] by simp
  obtain n where n: "length fs = Suc n" using assms(2) by (cases fs) auto
  have ts: "cacheTimestamp st' = t0 + n * tick_interval"
    using st' assms(2) n by (simp add: job_after_def split: list.splits)
  have "T < t0 + n * tick_interval + tick_interval" using assms(4) n by simp
  then show ?thesis
    using ts assms(2,3) n st' by (simp add: job_after_def split: list.splits)
qed

theorem refreshCacheJob_fresh_witness:
  "cacheTimestamp (fst (refreshCacheJob 0 [Inr [], Inr []] empty_cache)) \<le> 700 \<and>
   700 - cacheTimestamp (fst (refreshCacheJob 0 [Inr [], Inr []] empty_cache)) < tick_interval \<and>
   cache (fst (refreshCacheJob 0 [Inr [], Inr []] empty_cache)) = Some []"
proof -
  have r: "refreshCacheJob 0 [Inr [], Inr []] empty_cache =
      (fst (refreshCacheJob 0 [Inr [], Inr []] empty_cache), Running)"
    by (simp add: rebuildCache_def extract_eval_simps)
  show ?thesis
    using refreshCacheJob_fresh [OF r, of 700]
    by (simp add: tick_interval_def rebuild_snapshot_def extract_eval_simps)
qed

text \<open>C20: forgetting the timestamp, each run of part_000's refresher gives the slice and
  the exit status that part_001's refresher gives on the same fetch outcomes: the two jobs
  differ only in when their rebuilds happen (part_001 waits one interval first).\<close>

theorem refreshCacheJob_v1_refines:
  "refreshCacheJob_v1 fs (cache st) =
     (cache (fst (refreshCacheJob t fs st)), snd (refreshCacheJob t fs st))"
  by (induction fs arbitrary: t st) (simp_all add: rebuildCache_by_ok rebuildCache_v1_by_ok)

end
