(* ===== verification/Json.thy ===== *)
theory Json
  imports Extract "HOL-Library.Monad_Syntax"
begin

text \<open>
  The wire format of the snapshot. The handlers answer with \<open>c.JSON(200, output)\<close>,
  which gin renders with \<open>json.Marshal\<close> of the Go standard library: the struct tags of
  \<open>forecast\<close> and \<open>forecastValue\<close> give the keys, \<open>int\<close> is printed by
  \<open>strconv.AppendInt\<close> (\<open>format_int\<close>), and strings go through the string encoder of
  \<open>encoding/json\<close> with HTML escaping on. That encoder reads the bytes of the string:
  printable ASCII other than the double quote, the backslash, \<open><\<close>, \<open>>\<close> and
  \<open>&\<close> is copied; the double quote and the backslash are escaped by a backslash;
  backspace, form feed, newline, carriage return and tab have their two-character escapes
  (Go 1.22 and later); every other ASCII byte is the six-character escape \<open>u00XX\<close>
  in lower-case hex. Bytes from \<open>0x80\<close> on are decoded as UTF-8
  (\<open>utf8.DecodeRuneInString\<close>): a valid rune is copied, except U+2028 and U+2029,
  which are escaped; an invalid byte becomes the escape of U+FFFD, the replacement
  character. All of this is library code, modelled from Go's documented behaviour.
  A decoder for the same schema, \<open>parse_forecasts\<close>, reads the answer back as a client
  does; it is the other half of the round trip.
\<close>

definition byte :: "char \<Rightarrow> nat" where
  "byte c = of_char c"

definition quote_char :: char where
  "quote_char = CHR 0x22"

definition backslash :: char where
  "backslash = CHR 0x5C"

definition in_byte_range :: "nat \<Rightarrow> nat \<Rightarrow> char \<Rightarrow> bool" where
  "in_byte_range lo hi c \<longleftrightarrow> lo \<le> byte c \<and> byte c \<le> hi"

subsection \<open>UTF-8 decoding (\<open>unicode/utf8\<close>)\<close>

text \<open>The accepted range of the second byte after a lead byte \<open>b\<close>, as in the table
  \<open>acceptRanges\<close> of \<open>unicode/utf8\<close>: it excludes overlong forms, surrogates and code
  points above U+10FFFF.\<close>

definition second_ok :: "nat \<Rightarrow> char \<Rightarrow> bool" where
  "second_ok b c = (if b = 224 then in_byte_range 160 191 c
     else if b = 237 then in_byte_range 128 159 c
     else if b = 240 then in_byte_range 144 191 c
     else if b = 244 then in_byte_range 128 143 c
     else in_byte_range 128 191 c)"

text \<open>The width of the rune at the head of a non-empty string, or \<open>None\<close> where
  \<open>DecodeRuneInString\<close> gives \<open>(RuneError, 1)\<close>.\<close>

fun utf8_len :: "string \<Rightarrow> nat option" where
  "utf8_len [] = None"
| "utf8_len (c # cs) =
     (if byte c < 128 then Some 1
      else if 194 \<le> byte c \<and> byte c \<le> 223 then
        (case cs of c1 # _ \<Rightarrow> if second_ok (byte c) c1 then Some 2 else None | [] \<Rightarrow> None)
      else if 224 \<le> byte c \<and> byte c \<le> 239 then
        (case cs of c1 # c2 # _ \<Rightarrow>
            if second_ok (byte c) c1 \<and> in_byte_range 128 191 c2 then Some 3 else None
          | _ \<Rightarrow> None)
      else if 240 \<le> byte c \<and> byte c \<le> 244 then
        (case cs of c1 # c2 # c3 # _ \<Rightarrow>
            if second_ok (byte c) c1 \<and> in_byte_range 128 191 c2 \<and> in_byte_range 128 191 c3
            then Some 4 else None
          | _ \<Rightarrow> None)
      else None)"

text \<open>\<open>utf8.ValidString\<close>.\<close>

function utf8_valid :: "string \<Rightarrow> bool" where
  "utf8_valid [] = True"
| "utf8_valid (c # cs) = (case utf8_len (c # cs) of
      None \<Rightarrow> False
    | Some n \<Rightarrow> utf8_valid (drop n (c # cs)))"
  by pat_completeness auto
termination
  by (relation "measure length")
     (auto simp: Let_def split: if_splits list.splits)

subsection \<open>The string encoder of \<open>encoding/json\<close>\<close>

definition hexd :: "nat \<Rightarrow> char" where
  "hexd k = (if k < 10 then char_of (48 + k) else char_of (87 + k))"

definition html_safe :: "char \<Rightarrow> bool" where
  "html_safe c \<longleftrightarrow> 32 \<le> byte c \<and> byte c < 128 \<and> c \<noteq> quote_char \<and> c \<noteq> backslash \<and>
     c \<noteq> CHR ''<'' \<and> c \<noteq> CHR ''>'' \<and> c \<noteq> CHR ''&''"

text \<open>One ASCII byte.\<close>

definition json_ascii :: "char \<Rightarrow> string" where
  "json_ascii c =
     (if html_safe c then [c]
      else if c = quote_char \<or> c = backslash then [backslash, c]
      else if byte c = 8 then [backslash, CHR ''b'']
      else if byte c = 12 then [backslash, CHR ''f'']
      else if byte c = 10 then [backslash, CHR ''n'']
      else if byte c = 13 then [backslash, CHR ''r'']
      else if byte c = 9 then [backslash, CHR ''t'']
      else [backslash, CHR ''u'', CHR ''0'', CHR ''0'', hexd (byte c div 16), hexd (byte c mod 16)])"

definition line_sep :: "nat \<Rightarrow> string" where
  "line_sep k = [CHR 0xE2, CHR 0x80, char_of (168 + k)]"

function json_chars :: "string \<Rightarrow> string" where
  "json_chars [] = []"
| "json_chars (c # cs) =
     (if byte c < 128 then json_ascii c @ json_chars cs
      else (case utf8_len (c # cs) of
              None \<Rightarrow> [backslash, CHR ''u'', CHR ''f'', CHR ''f'', CHR ''f'', CHR ''d''] @ json_chars cs
            | Some n \<Rightarrow>
                (if take n (c # cs) = line_sep 0 \<or> take n (c # cs) = line_sep 1
                 then [backslash, CHR ''u'', CHR ''2'', CHR ''0'', CHR ''2'',
                       hexd (byte (last (take n (c # cs))) - 160)]
                 else take n (c # cs)) @ json_chars (drop n (c # cs))))"
  by pat_completeness auto
termination
  by (relation "measure length")
     (auto simp: Let_def split: if_splits list.splits)

definition json_string :: "string \<Rightarrow> string" where
  "json_string s = quote_char # json_chars s @ [quote_char]"

subsection \<open>The snapshot as \<open>json.Marshal\<close> writes it\<close>

definition json_key :: "string \<Rightarrow> string" where
  "json_key k = json_string k @ '':''"

fun json_elems :: "('a \<Rightarrow> string) \<Rightarrow> 'a list \<Rightarrow> string" where
  "json_elems enc [] = []"
| "json_elems enc [x] = enc x"
| "json_elems enc (x # y # zs) = enc x @ '','' @ json_elems enc (y # zs)"

definition json_list :: "('a \<Rightarrow> string) \<Rightarrow> 'a list \<Rightarrow> string" where
  "json_list enc xs = ''['' @ json_elems enc xs @ '']''"

definition json_forecastValue :: "forecastValue \<Rightarrow> string" where
  "json_forecastValue v = ''{'' @ json_key ''name'' @ json_string (Name v) @ '','' @
     json_key ''value'' @ format_int (Value v) @ ''}''"

definition json_forecast :: "forecast \<Rightarrow> string" where
  "json_forecast f = ''{'' @ json_key ''city_name'' @ json_string (CityName f) @ '','' @
     json_key ''forecast_text'' @ json_string (ForecastText f) @ '','' @
     json_key ''values'' @ json_list json_forecastValue (Values f) @ ''}''"

definition json_forecasts :: "forecast list \<Rightarrow> string" where
  "json_forecasts fs = json_list json_forecast fs"

subsection \<open>A client's decoder for the same schema\<close>

text \<open>Each parser reads a prefix of its input and returns the value and the rest. Strings
  accept every escape of RFC 8259 except surrogate pairs (\<open>\u\<close> escapes of a
  surrogate are refused; the encoder never writes one); numbers are an optional minus
  sign and decimal digits; no white space is allowed between tokens, as \<open>json.Marshal\<close>
  writes none.\<close>

definition hex_val :: "char \<Rightarrow> nat option" where
  "hex_val c = (if in_byte_range 48 57 c then Some (byte c - 48)
     else if in_byte_range 97 102 c then Some (byte c - 87)
     else if in_byte_range 65 70 c then Some (byte c - 55) else None)"

fun hex4 :: "string \<Rightarrow> nat option" where
  "hex4 [a, b, c, d] = do {
     x \<leftarrow> hex_val a; y \<leftarrow> hex_val b; z \<leftarrow> hex_val c; w \<leftarrow> hex_val d;
     Some (((x * 16 + y) * 16 + z) * 16 + w) }"
| "hex4 _ = None"

text \<open>The UTF-8 bytes of a code point of the basic multilingual plane.\<close>

definition utf8_encode :: "nat \<Rightarrow> string" where
  "utf8_encode cp = (if cp < 128 then [char_of cp]
     else if cp < 2048 then [char_of (192 + cp div 64), char_of (128 + cp mod 64)]
     else [char_of (224 + cp div 4096), char_of (128 + cp div 64 mod 64), char_of (128 + cp mod 64)])"

definition unescape :: "char \<Rightarrow> char option" where
  "unescape e = (if e = quote_char \<or> e = backslash \<or> e = CHR ''/'' then Some e
     else if e = CHR ''b'' then Some (CHR 0x08)
     else if e = CHR ''f'' then Some (CHR 0x0C)
     else if e = CHR ''n'' then Some (CHR 0x0A)
     else if e = CHR ''r'' then Some (CHR 0x0D)
     else if e = CHR ''t'' then Some (CHR 0x09)
     else None)"

text \<open>The characters of a string literal after its opening quote, up to the closing one.\<close>

function parse_chars :: "string \<Rightarrow> (string \<times> string) option" where
  "parse_chars [] = None"
| "parse_chars (c # cs) =
     (if c = quote_char then Some ([], cs)
      else if c = backslash then
        (case cs of
           [] \<Rightarrow> None
         | e # r \<Rightarrow> (case unescape e of
              Some d \<Rightarrow> map_option (apfst (Cons d)) (parse_chars r)
            | None \<Rightarrow>
                if e = CHR ''u'' then
                  (case hex4 (take 4 r) of
                     None \<Rightarrow> None
                   | Some cp \<Rightarrow>
                       if 55296 \<le> cp \<and> cp < 57344 then None
                       else map_option (apfst ((@) (utf8_encode cp))) (parse_chars (drop 4 r)))
                else None))
      else if byte c < 32 then None
      else map_option (apfst (Cons c)) (parse_chars cs))"
  by pat_completeness auto
termination
  by (relation "measure length") auto

definition parse_string :: "string \<Rightarrow> (string \<times> string) option" where
  "parse_string s = (case s of c # r \<Rightarrow> if c = quote_char then parse_chars r else None | [] \<Rightarrow> None)"

fun expect :: "string \<Rightarrow> string \<Rightarrow> string option" where
  "expect [] s = Some s"
| "expect (c # cs) [] = None"
| "expect (c # cs) (d # ds) = (if c = d then expect cs ds else None)"

definition parse_key :: "string \<Rightarrow> string \<Rightarrow> string option" where
  "parse_key k s = do { (k', r) \<leftarrow> parse_string s; if k' = k then expect '':'' r else None }"

definition parse_int_json :: "string \<Rightarrow> (int \<times> string) option" where
  "parse_int_json s =
     (let (neg, r) = (case s of c # r \<Rightarrow> if c = CHR ''-'' then (True, r) else (False, s)
                              | [] \<Rightarrow> (False, s));
          ds = takeWhile is_digit r
      in if ds = [] then None
         else Some (if neg then - int (dec_from 0 ds) else int (dec_from 0 ds), dropWhile is_digit r))"

text \<open>The elements of an array after its \<open>[\<close>, at most \<open>n\<close> of them.\<close>

fun parse_tail ::
  "(string \<Rightarrow> ('a \<times> string) option) \<Rightarrow> nat \<Rightarrow> string \<Rightarrow> ('a list \<times> string) option" where
  "parse_tail p 0 s = None"
| "parse_tail p (Suc n) s = do {
     (x, r) \<leftarrow> p s;
     (case r of
        c # r' \<Rightarrow> if c = CHR '','' then map_option (apfst (Cons x)) (parse_tail p n r')
                 else if c = CHR '']'' then Some ([x], r') else None
      | [] \<Rightarrow> None) }"

definition parse_list :: "(string \<Rightarrow> ('a \<times> string) option) \<Rightarrow> string \<Rightarrow> ('a list \<times> string) option" where
  "parse_list p s = (case s of
     c # r \<Rightarrow> if c \<noteq> CHR ''['' then None
             else (case r of
                     d # r' \<Rightarrow> if d = CHR '']'' then Some ([], r') else parse_tail p (length r) r
                   | [] \<Rightarrow> None)
   | [] \<Rightarrow> None)"

definition parse_forecastValue :: "string \<Rightarrow> (forecastValue \<times> string) option" where
  "parse_forecastValue s = do {
     r1 \<leftarrow> expect ''{'' s; r2 \<leftarrow> parse_key ''name'' r1; (nm, r3) \<leftarrow> parse_string r2;
     r4 \<leftarrow> expect '','' r3; r5 \<leftarrow> parse_key ''value'' r4; (v, r6) \<leftarrow> parse_int_json r5;
     r7 \<leftarrow> expect ''}'' r6;
     Some (\<lparr>Name = nm, Value = v\<rparr>, r7) }"

definition parse_forecast :: "string \<Rightarrow> (forecast \<times> string) option" where
  "parse_forecast s = do {
     r1 \<leftarrow> expect ''{'' s; r2 \<leftarrow> parse_key ''city_name'' r1; (cn, r3) \<leftarrow> parse_string r2;
     r4 \<leftarrow> expect '','' r3; r5 \<leftarrow> parse_key ''forecast_text'' r4; (ft, r6) \<leftarrow> parse_string r5;
     r7 \<leftarrow> expect '','' r6; r8 \<leftarrow> parse_key ''values'' r7;
     (vs, r9) \<leftarrow> parse_list parse_forecastValue r8; r10 \<leftarrow> expect ''}'' r9;
     Some (\<lparr>CityName = cn, ForecastText = ft, Values = vs\<rparr>, r10) }"

definition parse_forecasts :: "string \<Rightarrow> forecast list option" where
  "parse_forecasts s = (case parse_list parse_forecast s of Some (fs, []) \<Rightarrow> Some fs | _ \<Rightarrow> None)"

text \<open>The strings of a snapshot are valid UTF-8.\<close>

definition snapshot_utf8 :: "forecast list \<Rightarrow> bool" where
  "snapshot_utf8 fs = list_all (\<lambda>f. utf8_valid (CityName f) \<and> utf8_valid (ForecastText f) \<and>
     list_all (\<lambda>v. utf8_valid (Name v)) (Values f)) fs"

text \<open>A byte that may appear in an HTML page as it is: no control character, and none of
  \<open><\<close>, \<open>>\<close>, \<open>&\<close>.\<close>

definition wire_safe :: "char \<Rightarrow> bool" where
  "wire_safe c \<longleftrightarrow> 32 \<le> byte c \<and> c \<noteq> CHR ''<'' \<and> c \<noteq> CHR ''>'' \<and> c \<noteq> CHR ''&''"

subsection \<open>Round trip of the wire format\<close>

lemma byte_char_of [simp]: "n < 256 \<Longrightarrow> byte (char_of n) = n"
  by (simp add: byte_def)

lemma char_of_byte [simp]: "char_of (byte c) = c"
  by (simp add: byte_def)

lemma byte_inj: "byte c = byte d \<longleftrightarrow> c = d"
  by (metis char_of_byte)

lemma byte_eq_char_of: "byte c = k \<Longrightarrow> c = char_of k"
  by (metis char_of_byte)

lemma byte_quote [simp]: "byte quote_char = 34" and byte_backslash [simp]: "byte backslash = 92"
  by (simp_all add: quote_char_def backslash_def byte_def)

lemma parse_chars_high:
  "list_all (\<lambda>x. 128 \<le> byte x) bs \<Longrightarrow>
   parse_chars (bs @ rest) = map_option (apfst ((@) bs)) (parse_chars rest)"
proof (induction bs)
  case (Cons b bs)
  then have "b \<noteq> quote_char" "b \<noteq> backslash" "\<not> byte b < 32"
    by (auto simp flip: byte_inj)
  with Cons show ?case by (simp add: option.map_comp comp_def apfst_def map_prod_def split_def)
qed (simp add: option.map_id apfst_def map_prod_def)

lemma hex_val_hexd: "k < 16 \<Longrightarrow> hex_val (hexd k) = Some k"
  by (auto simp: hex_val_def hexd_def in_byte_range_def)

lemma parse_chars_ascii:
  assumes "byte c < 128"
  shows "parse_chars (json_ascii c @ rest) = map_option (apfst (Cons c)) (parse_chars rest)"
proof -
  consider (safe) "html_safe c"
    | (qb) "\<not> html_safe c" "c = quote_char \<or> c = backslash"
    | (short) "\<not> html_safe c" "c \<noteq> quote_char" "c \<noteq> backslash" "byte c \<in> {8, 12, 10, 13, 9}"
    | (hex) "\<not> html_safe c" "c \<noteq> quote_char" "c \<noteq> backslash" "byte c \<notin> {8, 12, 10, 13, 9}"
    by blast
  then show ?thesis
  proof cases
    case safe
    then have "c \<noteq> quote_char" "c \<noteq> backslash" "\<not> byte c < 32" by (auto simp: html_safe_def)
    with safe show ?thesis by (simp add: json_ascii_def)
  next
    case qb
    then show ?thesis by (auto simp: json_ascii_def unescape_def quote_char_def backslash_def)
  next
    case short
    from short(4) have "c = CHR 0x08 \<or> c = CHR 0x0C \<or> c = CHR 0x0A \<or> c = CHR 0x0D \<or> c = CHR 0x09"
      by (auto simp flip: byte_inj simp: byte_def)
    then show ?thesis
      apply (elim disjE)
      apply (simp_all add: json_ascii_def unescape_def html_safe_def quote_char_def backslash_def byte_def)
      done
  next
    case hex
    have b16: "byte c div 16 < 16" "byte c mod 16 < 16" using assms by auto
    have h0: "hex_val (CHR ''0'') = Some 0" by (simp add: hex_val_def in_byte_range_def byte_def)
    have j: "json_ascii c = [backslash, CHR ''u'', CHR ''0'', CHR ''0'', hexd (byte c div 16), hexd (byte c mod 16)]"
      using hex by (auto simp: json_ascii_def)
    have u: "unescape (CHR ''u'') = None" by (simp add: unescape_def quote_char_def backslash_def)
    have e: "utf8_encode (byte c) = [c]" using assms by (simp add: utf8_encode_def)
    have a: "(@) [c] = Cons c" by (rule ext) simp
    show ?thesis unfolding j using b16 assms
      by (simp add: h0 u e a hex_val_hexd quote_char_def backslash_def)
  qed
qed

lemma char_226: "char_of (226::nat) = CHR 0xE2"
  by (rule byte_eq_char_of [symmetric]) (simp add: byte_def)

lemma char_128: "char_of (128::nat) = CHR 0x80"
  by (rule byte_eq_char_of [symmetric]) (simp add: byte_def)

lemma utf8_len_high:
  "utf8_len (c # cs) = Some n \<Longrightarrow> 128 \<le> byte c \<Longrightarrow>
     0 < n \<and> n \<le> Suc (length cs) \<and> list_all (\<lambda>x. 128 \<le> byte x) (take n (c # cs))"
  by (auto simp: second_ok_def in_byte_range_def split: if_splits list.splits)

lemma parse_chars_line_sep:
  assumes "k < 2"
  shows "parse_chars ([backslash, CHR ''u'', CHR ''2'', CHR ''0'', CHR ''2'',
            hexd (byte (last (line_sep k)) - 160)] @ rest) =
         map_option (apfst ((@) (line_sep k))) (parse_chars rest)"
proof -
  have l: "byte (last (line_sep k)) - 160 = 8 + k" using assms by (simp add: line_sep_def)
  have h: "hex_val (CHR ''2'') = Some 2" "hex_val (CHR ''0'') = Some 0"
    by (simp_all add: hex_val_def in_byte_range_def byte_def)
  have e: "utf8_encode (8232 + k) = line_sep k"
    using assms by (auto simp: utf8_encode_def line_sep_def char_226 char_128 less_2_cases_iff)
  have u: "unescape (CHR ''u'') = None" by (simp add: unescape_def quote_char_def backslash_def)
  show ?thesis unfolding l using assms e
    by (simp add: h u hex_val_hexd quote_char_def backslash_def add.commute)
qed

lemma parse_chars_json_chars:
  "utf8_valid s \<Longrightarrow> parse_chars (json_chars s @ quote_char # rest) = Some (s, rest)"
proof (induction s rule: json_chars.induct)
  case 1
  then show ?case by simp
next
  case (2 c cs)
  show ?case
  proof (cases "byte c < 128")
    case True
    with "2.prems" have "utf8_valid cs" by simp
    with True "2.IH"(1) show ?thesis by (simp add: parse_chars_ascii)
  next
    case False
    then obtain n where n: "utf8_len (c # cs) = Some n" and v: "utf8_valid (drop n (c # cs))"
      using "2.prems" by (auto split: option.splits)
    have hi: "list_all (\<lambda>x. 128 \<le> byte x) (take n (c # cs))"
      using utf8_len_high [OF n] False by simp
    have ih: "parse_chars (json_chars (drop n (c # cs)) @ quote_char # rest) =
        Some (drop n (c # cs), rest)"
      using "2.IH"(3) [OF False n v] .
    show ?thesis
    proof (cases "take n (c # cs) = line_sep 0 \<or> take n (c # cs) = line_sep 1")
      case True
      then obtain k where k: "k < 2" "take n (c # cs) = line_sep k" by (auto intro: that [of 0] that [of 1])
      have "json_chars (c # cs) = [backslash, CHR ''u'', CHR ''2'', CHR ''0'', CHR ''2'',
          hexd (byte (last (line_sep k)) - 160)] @ json_chars (drop n (c # cs))"
        using False n True k(2) by simp
      then show ?thesis
        using parse_chars_line_sep [OF k(1), of "json_chars (drop n (c # cs)) @ quote_char # rest"]
          ih k(2) append_take_drop_id [of n "c # cs"]
        by (simp del: append_take_drop_id)
    next
      case False': False
      have "json_chars (c # cs) = take n (c # cs) @ json_chars (drop n (c # cs))"
        using False n False' by simp
      then show ?thesis
        using parse_chars_high [OF hi, of "json_chars (drop n (c # cs)) @ quote_char # rest"] ih
        by simp
    qed
  qed
qed

lemma parse_string_json:
  "utf8_valid s \<Longrightarrow> parse_string (json_string s @ rest) = Some (s, rest)"
  by (simp add: parse_string_def json_string_def parse_chars_json_chars)

lemma expect_append [simp]: "expect xs (xs @ r) = Some r"
  by (induction xs) simp_all

lemma parse_key_json:
  "utf8_valid k \<Longrightarrow> parse_key k (json_key k @ rest) = Some rest"
  by (simp add: parse_key_def json_key_def parse_string_json)

lemma takeWhile_digits:
  "\<forall>c \<in> set ds. is_digit c \<Longrightarrow> \<not> is_digit c \<Longrightarrow>
     takeWhile is_digit (ds @ c # r) = ds \<and> dropWhile is_digit (ds @ c # r) = c # r"
  by (simp add: takeWhile_append2 dropWhile_append2)

lemma parse_int_json_format:
  assumes "\<not> is_digit c"
  shows "parse_int_json (format_int v @ c # r) = Some (v, c # r)"
proof (cases "v < 0")
  case True
  then show ?thesis
    using decimal_digits [of "nat (- v)"] takeWhile_digits [OF _ assms, of "decimal (nat (- v))" r]
    by (simp add: parse_int_json_def format_int_def)
next
  case False
  obtain d ds where d: "decimal (nat v) = d # ds" "is_digit d" using decimal_first_digit by blast
  then have "d \<noteq> CHR ''-''" by (auto simp: is_digit_def)
  then show ?thesis
    using False d decimal_digits [of "nat v"] takeWhile_digits [OF _ assms, of "decimal (nat v)" r]
    by (simp add: parse_int_json_def format_int_def)
qed

lemma json_elems_Cons:
  "json_elems enc (x # xs) = enc x @ (case xs of [] \<Rightarrow> [] | _ \<Rightarrow> CHR '','' # json_elems enc xs)"
  by (cases xs) simp_all

lemma json_elems_length:
  "list_all (\<lambda>x. enc x \<noteq> []) xs \<Longrightarrow> length xs \<le> length (json_elems enc xs)"
  by (induction enc xs rule: json_elems.induct) (auto simp: Suc_le_eq)

lemma parse_tail_json:
  assumes "list_all (\<lambda>x. \<forall>r. p (enc x @ r) = Some (x, r)) xs" and "xs \<noteq> []"
    and "length xs \<le> n"
  shows "parse_tail p n (json_elems enc xs @ CHR '']'' # r) = Some (xs, r)"
  using assms
proof (induction enc xs arbitrary: n rule: json_elems.induct)
  case (2 enc x)
  then obtain m where "n = Suc m" by (cases n) auto
  with 2 show ?case by simp
next
  case (3 enc x y zs)
  then obtain m where m: "n = Suc m" by (cases n) auto
  with 3 have "parse_tail p m (json_elems enc (y # zs) @ CHR '']'' # r) = Some (y # zs, r)"
    by simp
  with 3 m show ?case by simp
qed simp

lemma parse_list_json:
  assumes "list_all (\<lambda>x. \<forall>r. p (enc x @ r) = Some (x, r)) xs"
    and "list_all (\<lambda>x. \<exists>d t. enc x = d # t \<and> d \<noteq> CHR '']'') xs"
  shows "parse_list p (json_list enc xs @ r) = Some (xs, r)"
proof (cases xs)
  case Nil
  then show ?thesis by (simp add: parse_list_def json_list_def)
next
  case (Cons x xs')
  from assms(2) Cons obtain d t where d: "enc x = d # t" "d \<noteq> CHR '']''" by auto
  have ne: "list_all (\<lambda>x. enc x \<noteq> []) xs" using assms(2) by (auto simp: list_all_iff)
  have "length xs \<le> length (json_elems enc xs @ CHR '']'' # r)"
    using json_elems_length [OF ne] by simp
  then show ?thesis
    using parse_tail_json [OF assms(1), of "length (json_elems enc xs @ CHR '']'' # r)" r] Cons d
    by (simp add: parse_list_def json_list_def json_elems_Cons)
qed

lemma keys_utf8:
  "utf8_valid ''name''" "utf8_valid ''value''" "utf8_valid ''city_name''"
  "utf8_valid ''forecast_text''" "utf8_valid ''values''"
  by (simp_all add: byte_def)

lemma close_brace_not_digit: "\<not> is_digit (CHR ''}'')" by (simp add: is_digit_def)

lemma json_forecastValue_append:
  "json_forecastValue v @ r = CHR ''{'' # json_key ''name'' @ json_string (Name v) @ CHR '','' #
     json_key ''value'' @ format_int (Value v) @ CHR ''}'' # r"
  by (simp add: json_forecastValue_def)

lemma parse_forecastValue_json:
  "utf8_valid (Name v) \<Longrightarrow> parse_forecastValue (json_forecastValue v @ r) = Some (v, r)"
  unfolding json_forecastValue_append parse_forecastValue_def
  by (simp only: parse_key_json [OF keys_utf8(1)] parse_key_json [OF keys_utf8(2)]
      parse_int_json_format [OF close_brace_not_digit] parse_string_json expect.simps if_True
      bind.simps append_assoc prod.case simp_thms append_Cons append_Nil) simp

lemma json_forecastValue_Cons:
  "list_all (\<lambda>x. \<exists>d t. json_forecastValue x = d # t \<and> d \<noteq> CHR '']'') vs"
  by (simp add: list_all_iff json_forecastValue_def)

lemma parse_values_json:
  "list_all (\<lambda>v. utf8_valid (Name v)) vs \<Longrightarrow>
   parse_list parse_forecastValue (json_list json_forecastValue vs @ X) = Some (vs, X)"
  by (rule parse_list_json [OF _ json_forecastValue_Cons])
     (simp add: list_all_iff parse_forecastValue_json)

lemma json_forecast_append:
  "json_forecast f @ r = CHR ''{'' # json_key ''city_name'' @ json_string (CityName f) @
     CHR '','' # json_key ''forecast_text'' @ json_string (ForecastText f) @ CHR '','' #
     json_key ''values'' @ json_list json_forecastValue (Values f) @ CHR ''}'' # r"
  by (simp add: json_forecast_def)

lemma parse_forecast_json:
  assumes "utf8_valid (CityName f)" "utf8_valid (ForecastText f)"
    "list_all (\<lambda>v. utf8_valid (Name v)) (Values f)"
  shows "parse_forecast (json_forecast f @ r) = Some (f, r)"
  unfolding json_forecast_append parse_forecast_def
  by (simp only: parse_key_json [OF keys_utf8(3)] parse_key_json [OF keys_utf8(4)]
      parse_key_json [OF keys_utf8(5)] parse_string_json [OF assms(1)]
      parse_string_json [OF assms(2)]
      parse_values_json [OF assms(3)] expect.simps if_True bind.simps append_assoc prod.case
      simp_thms append_Cons append_Nil) simp

lemma json_forecast_Cons:
  "list_all (\<lambda>x. \<exists>d t. json_forecast x = d # t \<and> d \<noteq> CHR '']'') fs"
  by (simp add: list_all_iff json_forecast_def)

lemma parse_forecasts_json:
  "snapshot_utf8 fs \<Longrightarrow> parse_forecasts (json_forecasts fs) = Some fs"
proof -
  assume "snapshot_utf8 fs"
  then have "list_all (\<lambda>x. \<forall>r. parse_forecast (json_forecast x @ r) = Some (x, r)) fs"
    by (simp add: snapshot_utf8_def list_all_iff parse_forecast_json)
  from parse_list_json [OF this json_forecast_Cons, of "[]"]
  show ?thesis by (simp add: parse_forecasts_def json_forecasts_def)
qed

subsection \<open>HTML safety of the wire format\<close>

lemma byte_lt_256: "byte c < 256"
  unfolding byte_def by (metis char_of_char of_char_of mod_less_divisor zero_less_numeral)
lemma wire_safe_byte:
  "wire_safe c \<longleftrightarrow> 32 \<le> byte c \<and> byte c \<noteq> 60 \<and> byte c \<noteq> 62 \<and> byte c \<noteq> 38"
  unfolding wire_safe_def using byte_inj [of c "CHR ''<''"] byte_inj [of c "CHR ''>''"] byte_inj [of c "CHR ''&''"]
  by (simp add: byte_def)
lemma wire_safe_hexd: "k < 16 \<Longrightarrow> wire_safe (hexd k)"
  by (simp add: wire_safe_byte hexd_def)
lemma wire_safe_high: "128 \<le> byte c \<Longrightarrow> wire_safe c"
  by (simp add: wire_safe_byte)

lemma json_ascii_safe: "list_all wire_safe (json_ascii c)"
proof -
  have h: "html_safe c \<Longrightarrow> wire_safe c" by (simp add: html_safe_def wire_safe_def)
  have lit: "wire_safe backslash" "wire_safe quote_char" "wire_safe (CHR ''b'')"
    "wire_safe (CHR ''f'')" "wire_safe (CHR ''n'')" "wire_safe (CHR ''r'')" "wire_safe (CHR ''t'')"
    "wire_safe (CHR ''u'')" "wire_safe (CHR ''0'')"
    by (simp_all add: wire_safe_byte byte_def backslash_def quote_char_def)
  have hx: "wire_safe (hexd (byte c div 16))" "wire_safe (hexd (byte c mod 16))"
    using byte_lt_256 [of c] by (simp_all add: wire_safe_hexd)
  show ?thesis by (auto simp: json_ascii_def h lit hx)
qed

lemma json_chars_safe: "list_all wire_safe (json_chars s)"
proof (induction s rule: json_chars.induct)
  case (2 c cs)
  show ?case
  proof (cases "byte c < 128")
    case True
    with "2.IH"(1) show ?thesis by (simp add: json_ascii_safe)
  next
    case False
    show ?thesis
    proof (cases "utf8_len (c # cs)")
      case None
      have eq: "json_chars (c # cs) =
          [backslash, CHR ''u'', CHR ''f'', CHR ''f'', CHR ''f'', CHR ''d''] @ json_chars cs"
        using False None by simp
      have "list_all wire_safe [backslash, CHR ''u'', CHR ''f'', CHR ''f'', CHR ''f'', CHR ''d'']"
        by (simp add: wire_safe_byte backslash_def byte_def)
      then show ?thesis unfolding eq using "2.IH"(2) [OF False None] by simp
    next
      case (Some n)
      have rest: "list_all wire_safe (json_chars (drop n (c # cs)))"
        using "2.IH"(3) [OF False Some] .
      show ?thesis
      proof (cases "take n (c # cs) = line_sep 0 \<or> take n (c # cs) = line_sep 1")
        case True
        then have "byte (last (take n (c # cs))) - 160 < 16" by (auto simp: line_sep_def)
        then have h: "wire_safe (hexd (byte (last (take n (c # cs))) - 160))"
          by (rule wire_safe_hexd)
        have eq: "json_chars (c # cs) = [backslash, CHR ''u'', CHR ''2'', CHR ''0'', CHR ''2'',
            hexd (byte (last (take n (c # cs))) - 160)] @ json_chars (drop n (c # cs))"
          using False Some True by simp
        have "list_all wire_safe [backslash, CHR ''u'', CHR ''2'', CHR ''0'', CHR ''2'']"
          by (simp add: wire_safe_byte backslash_def byte_def)
        then show ?thesis unfolding eq using h rest by simp
      next
        case nls: False
        have "list_all wire_safe (take n (c # cs))"
          using utf8_len_high [OF Some] False by (auto simp: list_all_iff wire_safe_high)
        with nls False Some rest show ?thesis by simp
      qed
    qed
  qed
qed simp

lemma format_int_safe: "list_all wire_safe (format_int v)"
proof -
  have "list_all wire_safe (decimal n)" for n
    using decimal_digits [of n] by (auto simp: list_all_iff wire_safe_byte is_digit_def byte_def)
  moreover have "wire_safe (CHR ''-'')" by (simp add: wire_safe_byte byte_def)
  ultimately show ?thesis by (simp add: format_int_def)
qed

lemma json_elems_safe:
  "P (CHR '','') \<Longrightarrow> list_all (\<lambda>x. list_all P (enc x)) xs \<Longrightarrow> list_all P (json_elems enc xs)"
  by (induction enc xs rule: json_elems.induct) auto

lemma wire_safe_punct:
  "wire_safe quote_char" "wire_safe (CHR '','')" "wire_safe (CHR '':'')" "wire_safe (CHR ''{'')"
  "wire_safe (CHR ''}'')" "wire_safe (CHR ''['')" "wire_safe (CHR '']'')"
  by (simp_all add: wire_safe_byte byte_def quote_char_def)

lemma json_string_safe: "list_all wire_safe (json_string s)"
  by (simp add: json_string_def json_chars_safe wire_safe_punct)

lemma json_key_safe: "list_all wire_safe (json_key k)"
  by (simp add: json_key_def json_string_safe wire_safe_punct)

lemma json_list_safe:
  "list_all (\<lambda>x. list_all wire_safe (enc x)) xs \<Longrightarrow> list_all wire_safe (json_list enc xs)"
  by (simp add: json_list_def json_elems_safe wire_safe_punct)

subsection \<open>Properties of the wire format\<close>

text \<open>C21: the wire format round-trips: a client that decodes the body which
  \<open>c.JSON(200, output)\<close> writes for a snapshot gets the snapshot back, field for field,
  whenever the snapshot's strings are valid UTF-8 (the escapes of the HTML-safe encoder,
  the line separators and the integers of any sign included).\<close>

theorem json_roundtrip:
  assumes "snapshot_utf8 fs"
  shows "parse_forecasts (json_forecasts fs) = Some fs"
  using assms by (rule parse_forecasts_json)

theorem json_roundtrip_witness:
  "parse_forecasts (json_forecasts
     [\<lparr>CityName = ''Aarhus <N>'', ForecastText = [CHR 0xC3, CHR 0xA6, CHR 0x0A],
       Values = [\<lparr>Name = ''Birk'', Value = -12\<rparr>]\<rparr>]) =
   Some [\<lparr>CityName = ''Aarhus <N>'', ForecastText = [CHR 0xC3, CHR 0xA6, CHR 0x0A],
       Values = [\<lparr>Name = ''Birk'', Value = -12\<rparr>]\<rparr>]"
  using json_roundtrip [of "[\<lparr>CityName = ''Aarhus <N>'', ForecastText = [CHR 0xC3, CHR 0xA6, CHR 0x0A],
       Values = [\<lparr>Name = ''Birk'', Value = -12\<rparr>]\<rparr>]"]
  by (simp add: snapshot_utf8_def byte_def second_ok_def in_byte_range_def)

text \<open>C22: a body that \<open>c.JSON\<close> writes for a snapshot is HTML-safe and free of raw
  control characters, whatever the strings of the snapshot hold (invalid UTF-8 included).\<close>

theorem json_wire_safe:
  "list_all wire_safe (json_forecasts fs)"
proof -
  have "list_all wire_safe (json_forecastValue v)" for v
    by (simp add: json_forecastValue_def json_key_safe json_string_safe format_int_safe
        wire_safe_punct)
  then have "list_all (\<lambda>x. list_all wire_safe (json_forecastValue x)) vs" for vs
    by (simp add: list_all_iff)
  then have "list_all wire_safe (json_forecast f)" for f
    by (simp add: json_forecast_def json_key_safe json_string_safe json_list_safe wire_safe_punct)
  then have "list_all (\<lambda>x. list_all wire_safe (json_forecast x)) fs"
    by (simp add: list_all_iff)
  then show ?thesis by (simp add: json_forecasts_def json_list_safe)
qed

end
