(* ===== verification/GoTime.thy ===== *)
theory GoTime
  imports Atoi
begin

text \<open>
  The two time formats the handlers of \<open>src/unnamed/part_000\<close> print:
  \<open>cacheTimestamp.Format(time.RFC3339)\<close> for the header \<open>X-Cache-Timestamp\<close> of
  \<open>GET /api\<close> (line 70) and \<open>cacheTimestamp.Format("15:04:05")\<close> for the page of
  \<open>GET /\<close> (line 57). \<open>cacheTimestamp\<close> is \<open>time.Now().UTC()\<close>, so both print the
  proleptic Gregorian calendar in UTC. A time is a number of seconds since the Unix epoch
  (\<open>time\<close>, from 1970-01-01T00:00:00Z on); the nanoseconds of \<open>time.Now\<close> are not
  modelled, and neither format prints them. This is library code (package \<open>time\<close>),
  modelled from its documentation: the year with at least four digits, zero-padded, the
  other fields with two, and \<open>Z\<close> for UTC. A parser of the same format is the client's
  side of the header.
\<close>

definition leap :: "nat \<Rightarrow> bool" where
  "leap y \<longleftrightarrow> y mod 4 = 0 \<and> (y mod 100 \<noteq> 0 \<or> y mod 400 = 0)"

definition year_days :: "nat \<Rightarrow> nat" where
  "year_days y = (if leap y then 366 else 365)"

definition month_days :: "nat \<Rightarrow> nat \<Rightarrow> nat" where
  "month_days y m = (if m = 2 then (if leap y then 29 else 28)
     else if m = 4 \<or> m = 6 \<or> m = 9 \<or> m = 11 then 30 else 31)"

text \<open>The year of the \<open>d\<close>-th day counted from January 1 of year \<open>y\<close>, and the day
  within that year.\<close>

function year_of :: "nat \<Rightarrow> nat \<Rightarrow> nat \<times> nat" where
  "year_of y d = (if d < year_days y then (y, d) else year_of (Suc y) (d - year_days y))"
  by auto
termination
  by (relation "measure snd") (auto simp: year_days_def)

text \<open>The month (from \<open>m\<close>, at most December) and the day within it.\<close>

function month_of :: "nat \<Rightarrow> nat \<Rightarrow> nat \<Rightarrow> nat \<times> nat" where
  "month_of y m d = (if 12 \<le> m \<or> d < month_days y m then (m, d)
     else month_of y (Suc m) (d - month_days y m))"
  by auto
termination
  by (relation "measure (\<lambda>(y, m, d). 12 - m)") auto

declare year_of.simps [simp del] month_of.simps [simp del]

definition digit_char :: "nat \<Rightarrow> char" where
  "digit_char k = char_of (48 + k)"

definition pad2 :: "nat \<Rightarrow> string" where
  "pad2 n = [digit_char (n div 10), digit_char (n mod 10)]"

definition pad4 :: "nat \<Rightarrow> string" where
  "pad4 n = replicate (4 - length (decimal n)) (CHR ''0'') @ decimal n"

text \<open>The calendar fields of a time: year, month, day, hour, minute, second.\<close>

definition civil :: "time \<Rightarrow> nat \<times> nat \<times> nat \<times> nat \<times> nat \<times> nat" where
  "civil t = (let (y, yd) = year_of 1970 (t div 86400); (m, md) = month_of y 1 yd;
                  s = t mod 86400
              in (y, m, Suc md, s div 3600, s div 60 mod 60, s mod 60))"

text \<open>\<open>Format(time.RFC3339)\<close> of a UTC time: \<open>2006-01-02T15:04:05Z\<close>.\<close>

definition format_rfc3339 :: "time \<Rightarrow> string" where
  "format_rfc3339 t = (case civil t of (y, m, d, h, mi, s) \<Rightarrow>
     pad4 y @ ''-'' @ pad2 m @ ''-'' @ pad2 d @ ''T'' @ pad2 h @ '':'' @ pad2 mi @ '':'' @ pad2 s @ ''Z'')"

text \<open>\<open>Format("15:04:05")\<close>.\<close>

definition format_clock :: "time \<Rightarrow> string" where
  "format_clock t = (case civil t of (y, m, d, h, mi, s) \<Rightarrow> pad2 h @ '':'' @ pad2 mi @ '':'' @ pad2 s)"

subsection \<open>The client's reading of the header\<close>

definition days_between :: "nat \<Rightarrow> nat \<Rightarrow> nat" where
  "days_between y y' = sum_list (map year_days [y..<y'])"

definition days_before_month :: "nat \<Rightarrow> nat \<Rightarrow> nat" where
  "days_before_month y m = sum_list (map (month_days y) [1..<m])"

definition digit2 :: "char \<Rightarrow> char \<Rightarrow> nat option" where
  "digit2 a b = (if is_digit a \<and> is_digit b then Some (10 * digit_val a + digit_val b) else None)"

fun parse_fields :: "string \<Rightarrow> (nat \<times> nat \<times> nat \<times> nat \<times> nat) option" where
  "parse_fields [c1, m1, m2, c2, d1, d2, cT, h1, h2, c3, i1, i2, c4, s1, s2, cZ] =
     (if c1 = CHR ''-'' \<and> c2 = CHR ''-'' \<and> cT = CHR ''T'' \<and> c3 = CHR '':'' \<and> c4 = CHR '':'' \<and>
         cZ = CHR ''Z''
      then (case (digit2 m1 m2, digit2 d1 d2, digit2 h1 h2, digit2 i1 i2, digit2 s1 s2) of
              (Some m, Some d, Some h, Some mi, Some s) \<Rightarrow> Some (m, d, h, mi, s)
            | _ \<Rightarrow> None)
      else None)"
| "parse_fields _ = None"

definition parse_rfc3339 :: "string \<Rightarrow> time option" where
  "parse_rfc3339 str = (let ys = takeWhile is_digit str; y = dec_from 0 ys in
     if ys = [] \<or> y < 1970 then None
     else (case parse_fields (dropWhile is_digit str) of
             None \<Rightarrow> None
           | Some (m, d, h, mi, s) \<Rightarrow>
               if 1 \<le> m \<and> m \<le> 12 \<and> 1 \<le> d \<and> d \<le> month_days y m \<and> h < 24 \<and> mi < 60 \<and> s < 60
               then Some ((days_between 1970 y + days_before_month y m + (d - 1)) * 86400
                          + h * 3600 + mi * 60 + s)
               else None))"

subsection \<open>Calendar arithmetic\<close>

lemma days_between_Suc:
  "y \<le> y' \<Longrightarrow> days_between y (Suc y') = days_between y y' + year_days y'"
  by (simp add: days_between_def)

lemma year_of_spec:
  "year_of y d = (y', r) \<Longrightarrow> y \<le> y' \<and> r < year_days y' \<and> d = days_between y y' + r"
proof (induction y d rule: year_of.induct)
  case (1 y d)
  show ?case
  proof (cases "d < year_days y")
    case True
    with "1.prems" show ?thesis by (simp add: days_between_def year_of.simps)
  next
    case False
    with "1.prems" have "year_of (Suc y) (d - year_days y) = (y', r)" by (simp add: year_of.simps)
    from "1.IH" [OF False this] have ih: "Suc y \<le> y'" "r < year_days y'"
      "d - year_days y = days_between (Suc y) y' + r" by auto
    have "days_between y y' = year_days y + days_between (Suc y) y'"
      using ih(1) by (simp add: days_between_def upt_conv_Cons)
    with ih False show ?thesis by simp
  qed
qed

lemma month_of_spec:
  "month_of y m d = (m', r) \<Longrightarrow> m \<le> 12 \<Longrightarrow>
     m \<le> m' \<and> m' \<le> 12 \<and> d = sum_list (map (month_days y) [m..<m']) + r \<and>
     (m' < 12 \<longrightarrow> r < month_days y m')"
proof (induction y m d rule: month_of.induct)
  case (1 y m d)
  show ?case
  proof (cases "12 \<le> m \<or> d < month_days y m")
    case True
    with "1.prems" show ?thesis by (auto simp: month_of.simps)
  next
    case False
    with "1.prems" have "month_of y (Suc m) (d - month_days y m) = (m', r)" by (simp add: month_of.simps)
    from "1.IH" [OF False this] False have ih: "Suc m \<le> m'" "m' \<le> 12"
      "d - month_days y m = sum_list (map (month_days y) [Suc m..<m']) + r"
      "m' < 12 \<longrightarrow> r < month_days y m'" by auto
    then show ?thesis using False by (simp add: upt_conv_Cons)
  qed
qed

lemma year_months: "sum_list (map (month_days y) [1..<12]) + 31 = year_days y"
  by (simp add: upt_rec month_days_def year_days_def)

lemma digit2_pad2: "n < 100 \<Longrightarrow> digit2 (digit_char (n div 10)) (digit_char (n mod 10)) = Some n"
  using digit_char_of [of "n div 10"] digit_char_of [of "n mod 10"]
  by (simp add: digit2_def digit_char_def)

lemma dec_from_zeros: "dec_from 0 (replicate k (CHR ''0'') @ xs) = dec_from 0 xs"
proof -
  have "foldl (\<lambda>n c. 10 * n + digit_val c) 0 (replicate k (CHR ''0'')) = 0"
    by (induction k) (simp_all add: digit_val_def)
  then show ?thesis by (simp add: dec_from_def)
qed

lemma pad4_digits: "pad4 n \<noteq> [] \<and> (\<forall>c \<in> set (pad4 n). is_digit c) \<and> dec_from 0 (pad4 n) = n"
  using decimal_digits [of n] by (auto simp: pad4_def dec_from_zeros is_digit_def)

lemma clock_split:
  "(s :: nat) div 3600 * 3600 + s div 60 mod 60 * 60 + s mod 60 = s"
proof -
  have "s mod 3600 = 60 * (s div 60 mod 60) + s mod 60"
    using mod_mult2_eq [of s 60 60] by simp
  then show ?thesis using div_mult_mod_eq [of s 3600] by linarith
qed

lemma parse_rfc3339_format: "parse_rfc3339 (format_rfc3339 t) = Some t"
proof -
  obtain y yd where yo: "year_of 1970 (t div 86400) = (y, yd)" by fastforce
  obtain m md where mo: "month_of y 1 yd = (m, md)" by fastforce
  from year_of_spec [OF yo] have y: "1970 \<le> y" "yd < year_days y"
    "t div 86400 = days_between 1970 y + yd" by auto
  from month_of_spec [OF mo] have m: "1 \<le> m" "m \<le> 12" "yd = days_before_month y m + md"
    "m < 12 \<longrightarrow> md < month_days y m" by (auto simp: days_before_month_def)
  have md: "md < month_days y m"
  proof (cases "m < 12")
    case False
    with m have "m = 12" by simp
    with m(3) y(2) year_months [of y] show ?thesis
      by (simp add: days_before_month_def month_days_def)
  qed (use m in simp)
  have md31: "md < 31" using md by (simp add: month_days_def split: if_splits)
  define sec where "sec = t mod 86400"
  have h: "sec div 3600 < 24" unfolding sec_def by simp
  have str: "format_rfc3339 t = pad4 y @ CHR ''-'' # pad2 m @ CHR ''-'' # pad2 (Suc md) @ CHR ''T'' #
      pad2 (sec div 3600) @ CHR '':'' # pad2 (sec div 60 mod 60) @ CHR '':'' # pad2 (sec mod 60) @ ''Z''"
    unfolding format_rfc3339_def civil_def yo Let_def by (simp add: mo [unfolded One_nat_def] sec_def)
  have tw: "takeWhile is_digit (pad4 y @ CHR ''-'' # r) = pad4 y"
    and dw: "dropWhile is_digit (pad4 y @ CHR ''-'' # r) = CHR ''-'' # r" for r
    using pad4_digits [of y] by (simp_all add: takeWhile_append2 dropWhile_append2 is_digit_def)
  have f: "parse_fields (CHR ''-'' # pad2 m @ CHR ''-'' # pad2 (Suc md) @ CHR ''T'' #
      pad2 (sec div 3600) @ CHR '':'' # pad2 (sec div 60 mod 60) @ CHR '':'' # pad2 (sec mod 60) @ ''Z'')
      = Some (m, Suc md, sec div 3600, sec div 60 mod 60, sec mod 60)"
    using m(2) md31 h by (simp add: pad2_def digit2_pad2)
  have "(days_between 1970 y + days_before_month y m + (Suc md - 1)) * 86400 +
      sec div 3600 * 3600 + sec div 60 mod 60 * 60 + sec mod 60 = t"
    using y(3) m(3) clock_split [of sec] div_mult_mod_eq [of t 86400] by (simp add: sec_def)
  then show ?thesis
    unfolding str parse_rfc3339_def Let_def tw dw f
    using pad4_digits [of y] y(1) m(1,2) md h by simp
qed

subsection \<open>Properties of the time formats\<close>

text \<open>C24: the header \<open>X-Cache-Timestamp\<close> loses nothing but the sub-second part: a
  client that reads the RFC 3339 text back gets exactly the second of \<open>cacheTimestamp\<close>
  (leap years, month lengths and the four-digit zero-padded year included).\<close>

theorem rfc3339_roundtrip: "parse_rfc3339 (format_rfc3339 t) = Some t"
  by (rule parse_rfc3339_format)

end
