(* ===== verification/Http.thy ===== *)
theory Http
  imports Cache Json GoTime
begin

text \<open>
  The request handlers and the listen address of the three versions. A handler is a
  function of the store it reads and returns the response gin sends: a status, the
  headers in the order they are set, and a body. \<open>c.String\<close>, \<open>c.JSON\<close> and
  \<open>c.HTML\<close> set the \<open>Content-Type\<close> of their renderer (gin's documented behaviour);
  \<open>c.AbortWithError\<close> of \<open>main.go\<close> sends the status with an empty body. The HTML
  template \<open>index.html\<close> is not part of the sources, so a page is the template name and
  the data handed to it. The text of a \<open>strconv.NumError\<close> (which uses
  \<open>strconv.Quote\<close>) is a parameter \<open>numerr\<close> of the error texts: the properties
  hold for every choice of it.
\<close>

datatype body = TextBody string | JsonBody string | HtmlPage string "forecast list" string | NoBody

record response =
  status :: nat
  headers :: "(string \<times> string) list"
  body :: body

definition content_type :: "string \<Rightarrow> string \<times> string" where
  "content_type t = (''Content-Type'', t @ ''; charset=utf-8'')"

text \<open>\<open>err.Error()\<close> of the errors of \<open>rebuildCache\<close> and \<open>fetchCache\<close>.\<close>

definition error_text :: "(num_error \<Rightarrow> string) \<Rightarrow> pollen_error \<Rightarrow> string" where
  "error_text numerr e = (case e of
      FetchError err \<Rightarrow> ''error fetching from URL: '' @ err
    | ParseValueError s ie \<Rightarrow>
        ''unable to parse pollen value for '' @ [quote_char] @ s @ [quote_char] @ '': '' @ numerr ie
    | CacheEmpty \<Rightarrow> ''Cache is empty, try again in a few seconds'')"

definition string_response :: "nat \<Rightarrow> string \<Rightarrow> response" where
  "string_response code s = \<lparr>status = code, headers = [content_type ''text/plain''], body = TextBody s\<rparr>"

definition json_response :: "(string \<times> string) list \<Rightarrow> forecast list \<Rightarrow> response" where
  "json_response hs output =
     \<lparr>status = 200, headers = hs @ [content_type ''application/json''],
      body = JsonBody (json_forecasts output)\<rparr>"

text \<open>\<open>GET /api\<close> of part_000: the response and whether \<open>fetchCache\<close> spawned a
  rebuild.\<close>

definition handler_api :: "(num_error \<Rightarrow> string) \<Rightarrow> cache_state \<Rightarrow> response \<times> bool" where
  "handler_api numerr st = (case fetchCache (cache st) of
      (Inl err, spawned) \<Rightarrow> (string_response 500 (error_text numerr err), spawned)
    | (Inr output, spawned) \<Rightarrow>
        (json_response [(''X-Cache-Timestamp'', format_rfc3339 (cacheTimestamp st))] output, spawned))"

text \<open>\<open>GET /\<close> of part_000: the page \<open>index.html\<close> with the slice and the clock time.\<close>

definition handler_index :: "(num_error \<Rightarrow> string) \<Rightarrow> cache_state \<Rightarrow> response \<times> bool" where
  "handler_index numerr st = (case fetchCache (cache st) of
      (Inl err, spawned) \<Rightarrow> (string_response 500 (error_text numerr err), spawned)
    | (Inr output, spawned) \<Rightarrow>
        (\<lparr>status = 200, headers = [content_type ''text/html''],
          body = HtmlPage ''index.html'' output (format_clock (cacheTimestamp st))\<rparr>, spawned))"

text \<open>\<open>GET /\<close> of part_001.\<close>

definition handler_v1 :: "(num_error \<Rightarrow> string) \<Rightarrow> cache_v1 \<Rightarrow> response \<times> bool" where
  "handler_v1 numerr c = (case fetchCache_v1 c of
      (Inl err, spawned) \<Rightarrow> (string_response 500 (error_text numerr err), spawned)
    | (Inr output, spawned) \<Rightarrow> (json_response [] output, spawned))"

text \<open>\<open>GET /\<close> of \<open>main.go\<close>: the response and the cache afterwards.\<close>

definition handler_main ::
  "fetch_result \<Rightarrow> forecast list option \<Rightarrow> response \<times> forecast list option" where
  "handler_main fetched c = (case fetchParseAndJsonify fetched c of
      (Inl err, c') \<Rightarrow> (\<lparr>status = 500, headers = [], body = NoBody\<rparr>, c')
    | (Inr output, c') \<Rightarrow> (json_response [] output, c'))"

text \<open>\<open>os.LookupEnv("LISTEN_ADDR")\<close> with the default \<open>:8080\<close> (part_000 and
  part_001); \<open>main.go\<close> listens on \<open>:8000\<close>.\<close>

definition listen_addr :: "(string \<Rightarrow> string option) \<Rightarrow> string" where
  "listen_addr env = (case env ''LISTEN_ADDR'' of None \<Rightarrow> '':8080'' | Some a \<Rightarrow> a)"

definition listen_addr_main :: string where
  "listen_addr_main = '':8000''"

text \<open>What a client of \<open>GET /api\<close> reads from a response: on status 200, the decoded
  body and the decoded header \<open>X-Cache-Timestamp\<close>.\<close>

definition client_api :: "response \<Rightarrow> (forecast list \<times> time) option" where
  "client_api r = (if status r \<noteq> 200 then None
     else (case (body r, map_of (headers r) ''X-Cache-Timestamp'') of
             (JsonBody j, Some ts) \<Rightarrow>
               (case (parse_forecasts j, parse_rfc3339 ts) of
                  (Some fs, Some t) \<Rightarrow> Some (fs, t)
                | _ \<Rightarrow> None)
           | _ \<Rightarrow> None))"

subsection \<open>Properties of the handlers\<close>

text \<open>C25: \<open>GET /api\<close> of part_000 answers from the store alone: on a nil cache it sends
  status 500 with the fixed \<open>CacheEmpty\<close> text (never a parse or fetch error text,
  whatever those would read) and spawns exactly one rebuild; otherwise it sends status 200
  with the JSON of the cached slice and the RFC 3339 text of \<open>cacheTimestamp\<close>, and
  spawns nothing.\<close>

theorem handler_api_contract:
  "handler_api numerr st = (case cache st of
      None \<Rightarrow> (\<lparr>status = 500, headers = [(''Content-Type'', ''text/plain; charset=utf-8'')],
                body = TextBody ''Cache is empty, try again in a few seconds''\<rparr>, True)
    | Some v \<Rightarrow> (\<lparr>status = 200,
                   headers = [(''X-Cache-Timestamp'', format_rfc3339 (cacheTimestamp st)),
                              (''Content-Type'', ''application/json; charset=utf-8'')],
                   body = JsonBody (json_forecasts v)\<rparr>, False))"
  by (simp add: handler_api_def fetchCache_def error_text_def string_response_def
      json_response_def content_type_def split: option.splits)

text \<open>C26: the handler of part_001 is the \<open>/api\<close> handler of part_000 without the
  timestamp header: same status, same body, same spawned rebuild, on the same slice.\<close>

theorem handler_v1_refines:
  "handler_v1 numerr (cache st) =
     (let (r, spawned) = handler_api numerr st
      in (r\<lparr>headers := filter (\<lambda>h. fst h \<noteq> ''X-Cache-Timestamp'') (headers r)\<rparr>, spawned))"
  by (simp add: handler_v1_def handler_api_def fetchCache_v1_eq fetchCache_def string_response_def
      json_response_def content_type_def split: option.splits)

text \<open>C27: end to end, a client of \<open>GET /api\<close> learns exactly what the store holds:
  the cached slice, field for field, and \<open>cacheTimestamp\<close> to the second, or nothing
  while the cache is nil, provided the slice's strings are valid UTF-8. This composes the
  handler with the JSON encoder and the RFC 3339 formatter.\<close>

theorem handler_api_client_view:
  assumes "case cache st of None \<Rightarrow> True | Some v \<Rightarrow> snapshot_utf8 v"
  shows "client_api (fst (handler_api numerr st)) = map_option (\<lambda>v. (v, cacheTimestamp st)) (cache st)"
  using assms
  by (auto simp: client_api_def handler_api_def fetchCache_def string_response_def
      json_response_def content_type_def parse_forecasts_json parse_rfc3339_format
      split: option.splits)

theorem handler_api_client_view_witness:
  "client_api (fst (handler_api (\<lambda>_. '''') \<lparr>cache = Some [\<lparr>CityName = ''Aarhus'', ForecastText = ''Lav'',
       Values = [\<lparr>Name = ''Birk'', Value = 12\<rparr>]\<rparr>], cacheTimestamp = 1762700000\<rparr>)) =
   Some ([\<lparr>CityName = ''Aarhus'', ForecastText = ''Lav'', Values = [\<lparr>Name = ''Birk'', Value = 12\<rparr>]\<rparr>],
         1762700000)"
  using handler_api_client_view [of "\<lparr>cache = Some [\<lparr>CityName = ''Aarhus'', ForecastText = ''Lav'',
       Values = [\<lparr>Name = ''Birk'', Value = 12\<rparr>]\<rparr>], cacheTimestamp = 1762700000\<rparr>" "\<lambda>_. ''''"]
  by (simp add: snapshot_utf8_def byte_def)

text \<open>C32: the handler of \<open>main.go\<close> serves a hit from the cache without fetching; on a
  miss it fetches and extracts before answering, caching only a success; and every failure
  (fetch or extraction) reaches the client as status 500 with an empty body, the error
  text only attached to gin's context, leaving the cache nil so that the next request
  fetches again.\<close>

theorem handler_main_contract:
  "handler_main f c = (case c of
      Some v \<Rightarrow> (json_response [] v, c)
    | None \<Rightarrow> (case f of
        Inl err \<Rightarrow> (\<lparr>status = 500, headers = [], body = NoBody\<rparr>, None)
      | Inr doc \<Rightarrow> (case extract_forecasts doc of
          Inl e \<Rightarrow> (\<lparr>status = 500, headers = [], body = NoBody\<rparr>, None)
        | Inr fs \<Rightarrow> (json_response [] fs, Some fs))))"
  by (simp add: handler_main_def fetchParseAndJsonify_def split: option.splits sum.splits)

end
