(* ===== verification/Router.thy ===== *)
theory Router
  imports Http
begin

text \<open>
  The \<open>main\<close> functions of the three versions: the gin engine each builds with
  \<open>gin.Default()\<close>, the routes it registers, the address it listens on and whether it
  starts \<open>go refreshCacheJob()\<close>, and the dispatch of a request (method and path) to a
  handler. Routing follows gin's documented defaults: a registered method and path runs its
  handler; \<open>r.Static(prefix, dir)\<close> registers \<open>GET\<close> and \<open>HEAD\<close> on
  \<open>prefix/*filepath\<close>; otherwise, when the path with its trailing slash added or removed
  is routed for the same method (and the method is not \<open>CONNECT\<close> and the path not
  \<open>/\<close>), \<open>RedirectTrailingSlash\<close> answers 301 for \<open>GET\<close> and 307 for other
  methods through \<open>http.Redirect\<close>; everything else gets gin's 404 with the body
  \<open>404 page not found\<close> (\<open>HandleMethodNotAllowed\<close> is off, so a known path with
  another method is a 404 too). Request paths are taken as \<open>URL.Path\<close> after
  decoding, without query and without an \<open>X-Forwarded-Prefix\<close> header; the
  \<open>path.Clean\<close> that \<open>http.Redirect\<close> applies to the location is the identity on
  the clean paths considered here. The file server behind \<open>r.Static\<close> is a parameter
  \<open>files\<close> (the directory \<open>static\<close> is not part of the sources), as are the templates.
\<close>

datatype 'h route = Handle 'h | ServeFile string string | Redirect nat string | NotFound

record 'h server =
  routes :: "((string \<times> string) \<times> 'h) list"
  statics :: "(string \<times> string) list"
  addr :: string
  refresher :: bool

subsection \<open>gin's router\<close>

fun strip_prefix :: "string \<Rightarrow> string \<Rightarrow> string option" where
  "strip_prefix [] ys = Some ys"
| "strip_prefix (x # xs) [] = None"
| "strip_prefix (x # xs) (y # ys) = (if x = y then strip_prefix xs ys else None)"

text \<open>The catch-all \<open>prefix/*filepath\<close>: the directory and \<open>c.Param("filepath")\<close>,
  which keeps its leading slash.\<close>

fun static_match :: "(string \<times> string) list \<Rightarrow> string \<Rightarrow> (string \<times> string) option" where
  "static_match [] p = None"
| "static_match ((pre, dir) # ss) p = (case strip_prefix (pre @ ''/'') p of
      Some rest \<Rightarrow> Some (dir, ''/'' @ rest)
    | None \<Rightarrow> static_match ss p)"

definition lookup_route :: "'h server \<Rightarrow> string \<Rightarrow> string \<Rightarrow> 'h route option" where
  "lookup_route srv m p = (case map_of (routes srv) (m, p) of
      Some h \<Rightarrow> Some (Handle h)
    | None \<Rightarrow> if m = ''GET'' \<or> m = ''HEAD''
              then map_option (\<lambda>(dir, f). ServeFile dir f) (static_match (statics srv) p)
              else None)"

text \<open>\<open>redirectTrailingSlash\<close>: drop a trailing slash, or add one.\<close>

definition toggle_slash :: "string \<Rightarrow> string" where
  "toggle_slash p = (if 1 < length p \<and> last p = CHR ''/'' then butlast p else p @ ''/'')"

definition route :: "'h server \<Rightarrow> string \<Rightarrow> string \<Rightarrow> 'h route" where
  "route srv m p = (case lookup_route srv m p of
      Some r \<Rightarrow> r
    | None \<Rightarrow> if m \<noteq> ''CONNECT'' \<and> p \<noteq> ''/'' \<and> lookup_route srv m (toggle_slash p) \<noteq> None
              then Redirect (if m = ''GET'' then 301 else 307) (toggle_slash p)
              else NotFound)"

text \<open>gin's \<open>serveError(c, 404, default404Body)\<close>: \<open>text/plain\<close> without charset.\<close>

definition not_found :: response where
  "not_found = \<lparr>status = 404, headers = [(''Content-Type'', ''text/plain'')],
                body = TextBody ''404 page not found''\<rparr>"

fun html_escape :: "string \<Rightarrow> string" where
  "html_escape [] = []"
| "html_escape (c # cs) =
     (if c = CHR ''&'' then ''&amp;'' else if c = CHR ''<'' then ''&lt;''
      else if c = CHR ''>'' then ''&gt;'' else if c = quote_char then ''&#34;''
      else if c = CHR 0x27 then ''&#39;'' else [c]) @ html_escape cs"

fun hex_escape_non_ascii :: "string \<Rightarrow> string" where
  "hex_escape_non_ascii [] = []"
| "hex_escape_non_ascii (c # cs) =
     (if 128 \<le> byte c then [CHR ''%'', hexd (byte c div 16), hexd (byte c mod 16)] else [c])
     @ hex_escape_non_ascii cs"

definition status_text :: "nat \<Rightarrow> string" where
  "status_text code = (if code = 301 then ''Moved Permanently'' else ''Temporary Redirect'')"

text \<open>\<open>http.Redirect(w, r, url, code)\<close> on a path: the \<open>Location\<close> header, an HTML
  content type for \<open>GET\<close> and \<open>HEAD\<close>, and a short note as body for \<open>GET\<close>
  (\<open>fmt.Fprintln\<close> of a text that already ends in a newline).\<close>

definition redirect_response :: "string \<Rightarrow> nat \<Rightarrow> string \<Rightarrow> response" where
  "redirect_response m code loc =
     \<lparr>status = code,
      headers = (''Location'', hex_escape_non_ascii loc) #
                (if m = ''GET'' \<or> m = ''HEAD'' then [content_type ''text/html''] else []),
      body = (if m = ''GET''
              then TextBody (''<a href='' @ [quote_char] @ html_escape loc @ [quote_char] @ ''>''
                             @ status_text code @ ''</a>.'' @ [CHR 0x0A, CHR 0x0A])
              else NoBody)\<rparr>"

text \<open>The answer to a request no handler of the program takes.\<close>

definition unrouted :: "(string \<Rightarrow> string \<Rightarrow> response) \<Rightarrow> string \<Rightarrow> 'h route \<Rightarrow> response" where
  "unrouted files m r = (case r of
      ServeFile dir f \<Rightarrow> files dir f
    | Redirect code loc \<Rightarrow> redirect_response m code loc
    | _ \<Rightarrow> not_found)"

subsection \<open>The three programs\<close>

datatype endpoint_v0 = Index | Api

text \<open>\<open>main\<close> of part_000 (lines 39-80).\<close>

definition main_v0 :: "(string \<Rightarrow> string option) \<Rightarrow> endpoint_v0 server" where
  "main_v0 env = \<lparr>routes = [((''GET'', ''/''), Index), ((''GET'', ''/api''), Api)],
                  statics = [(''/static'', ''static'')], addr = listen_addr env, refresher = True\<rparr>"

definition serve_v0 ::
  "(num_error \<Rightarrow> string) \<Rightarrow> (string \<Rightarrow> string \<Rightarrow> response) \<Rightarrow> (string \<Rightarrow> string option) \<Rightarrow>
   string \<Rightarrow> string \<Rightarrow> cache_state \<Rightarrow> response \<times> bool" where
  "serve_v0 numerr files env m p st = (case route (main_v0 env) m p of
      Handle Index \<Rightarrow> handler_index numerr st
    | Handle Api \<Rightarrow> handler_api numerr st
    | r \<Rightarrow> (unrouted files m r, False))"

text \<open>\<open>main\<close> of part_001 (lines 38-60).\<close>

definition main_v1 :: "(string \<Rightarrow> string option) \<Rightarrow> unit server" where
  "main_v1 env = \<lparr>routes = [((''GET'', ''/''), ())], statics = [], addr = listen_addr env,
                  refresher = True\<rparr>"

definition serve_v1 ::
  "(num_error \<Rightarrow> string) \<Rightarrow> (string \<Rightarrow> string option) \<Rightarrow> string \<Rightarrow> string \<Rightarrow> cache_v1 \<Rightarrow>
   response \<times> bool" where
  "serve_v1 numerr env m p c = (case route (main_v1 env) m p of
      Handle _ \<Rightarrow> handler_v1 numerr c
    | r \<Rightarrow> (unrouted (\<lambda>_ _. not_found) m r, False))"

text \<open>\<open>main\<close> of \<open>main.go\<close> (lines 32-43): no refresher, and a fixed address.\<close>

definition main_main :: "unit server" where
  "main_main = \<lparr>routes = [((''GET'', ''/''), ())], statics = [], addr = listen_addr_main,
                refresher = False\<rparr>"

definition serve_main ::
  "fetch_result \<Rightarrow> string \<Rightarrow> string \<Rightarrow> cache_v1 \<Rightarrow> response \<times> cache_v1" where
  "serve_main f m p c = (case route main_main m p of
      Handle _ \<Rightarrow> handler_main f c
    | r \<Rightarrow> (unrouted (\<lambda>_ _. not_found) m r, c))"

subsection \<open>Dispatch lemmas\<close>

lemma route_Handle: "route srv m p = Handle h \<Longrightarrow> map_of (routes srv) (m, p) = Some h"
  by (auto simp: route_def lookup_route_def split: option.splits if_splits)

lemma strip_prefix_append [simp]: "strip_prefix xs (xs @ ys) = Some ys"
  by (induction xs) simp_all

lemma serve_v0_api: "serve_v0 numerr files env ''GET'' ''/api'' st = handler_api numerr st"
  by (simp add: serve_v0_def route_def lookup_route_def main_v0_def)

lemma unrouted_v0:
  "(\<And>h. route (main_v0 env) m p \<noteq> Handle h) \<Longrightarrow>
   serve_v0 numerr files env m p st = (unrouted files m (route (main_v0 env) m p), False)"
  by (cases "route (main_v0 env) m p") (auto simp: serve_v0_def)

lemma unrouted_v1:
  "(\<And>h. route (main_v1 env) m p \<noteq> Handle h) \<Longrightarrow>
   serve_v1 numerr env m p c = (unrouted (\<lambda>_ _. not_found) m (route (main_v1 env) m p), False)"
  by (cases "route (main_v1 env) m p") (auto simp: serve_v1_def)

lemma unrouted_main:
  "(\<And>h. route main_main m p \<noteq> Handle h) \<Longrightarrow>
   serve_main f m p c = (unrouted (\<lambda>_ _. not_found) m (route main_main m p), c)"
  by (cases "route main_main m p") (auto simp: serve_main_def)

subsection \<open>Properties of the programs' routing\<close>

text \<open>C33: in each of the three programs, a request that is not a \<open>GET\<close> of a path with a
  handler never reaches the cache: its answer does not depend on the cache, part_000 and
  part_001 spawn no rebuild for it, and \<open>main.go\<close> neither fetches nor stores (its
  answer is the same whatever the fetch would give, and the cache is unchanged). Only
  \<open>GET /\<close> and \<open>GET /api\<close> read the store.\<close>

theorem serve_unrouted_store_access:
  assumes "\<not> (m = ''GET'' \<and> (p = ''/'' \<or> p = ''/api''))"
  shows "serve_v0 numerr files env m p st = serve_v0 numerr files env m p st' \<and>
    \<not> snd (serve_v0 numerr files env m p st) \<and>
    serve_v1 numerr env m p c = (fst (serve_v1 numerr env m p None), False) \<and>
    serve_main f m p c = (fst (serve_main f' m p None), c)"
proof -
  have "\<And>h. route (main_v0 env) m p \<noteq> Handle h"
    using assms by (force dest: route_Handle simp: main_v0_def split: if_splits)
  moreover have "\<And>h. route (main_v1 env) m p \<noteq> Handle h"
    using assms by (force dest: route_Handle simp: main_v1_def split: if_splits)
  moreover have "\<And>h. route main_main m p \<noteq> Handle h"
    using assms by (force dest: route_Handle simp: main_main_def split: if_splits)
  ultimately show ?thesis by (simp add: unrouted_v0 unrouted_v1 unrouted_main)
qed

theorem serve_unrouted_store_access_witness:
  "serve_v0 (\<lambda>_. '''') (\<lambda>_ _. not_found) (\<lambda>_. None) ''POST'' ''/api'' empty_cache =
     serve_v0 (\<lambda>_. '''') (\<lambda>_ _. not_found) (\<lambda>_. None) ''POST'' ''/api''
       \<lparr>cache = Some [], cacheTimestamp = 5\<rparr> \<and>
   serve_main (Inl ''timeout'') ''HEAD'' ''/'' (Some []) = (not_found, Some [])"
proof -
  have "\<not> (''POST'' = ''GET'' \<and> (''/api'' = ''/'' \<or> ''/api'' = ''/api''))" by simp
  note w = serve_unrouted_store_access [OF this, of "\<lambda>_. ''''" "\<lambda>_ _. not_found" "\<lambda>_. None"
      empty_cache "\<lparr>cache = Some [], cacheTimestamp = 5\<rparr>" "Some []" "Inl ''timeout''" "Inl ''timeout''"]
  have "serve_main (Inl ''timeout'') ''HEAD'' ''/'' (Some []) = (not_found, Some [])"
    by (simp add: serve_main_def route_def lookup_route_def main_main_def unrouted_def toggle_slash_def)
  with w show ?thesis by simp
qed

text \<open>C35: part_000 serves every path under \<open>/static/\<close> to \<open>GET\<close> and \<open>HEAD\<close>
  from the file server on the directory \<open>static\<close> with \<open>c.Param("filepath")\<close> the
  rest of the path (slash included), answers other methods there with gin's 404, and
  redirects \<open>GET /api/\<close> permanently to \<open>/api\<close>; none of these reads the store.\<close>

theorem serve_v0_static_and_slash:
  "serve_v0 numerr files env m (''/static/'' @ f) st =
     (if m = ''GET'' \<or> m = ''HEAD'' then files ''static'' (''/'' @ f) else not_found, False) \<and>
   serve_v0 numerr files env ''GET'' ''/api/'' st = (redirect_response ''GET'' 301 ''/api'', False)"
proof
  have "\<And>h. route (main_v0 env) m (''/static/'' @ f) \<noteq> Handle h"
    by (force dest: route_Handle simp: main_v0_def split: if_splits)
  then show "serve_v0 numerr files env m (''/static/'' @ f) st =
     (if m = ''GET'' \<or> m = ''HEAD'' then files ''static'' (''/'' @ f) else not_found, False)"
    by (simp add: unrouted_v0 route_def lookup_route_def main_v0_def unrouted_def
        split: option.splits)
next
  show "serve_v0 numerr files env ''GET'' ''/api/'' st = (redirect_response ''GET'' 301 ''/api'', False)"
    by (simp add: serve_v0_def route_def lookup_route_def main_v0_def toggle_slash_def unrouted_def)
qed

end
