(* ===== verification/MainConcurrency.thy ===== *)
theory MainConcurrency
  imports Cache
begin

text \<open>
  The request goroutines of \<open>src/main.go\<close> at the granularity of their mutex operations.
  \<open>fetchParseAndJsonify\<close> (lines 45-119) takes the plain \<open>sync.Mutex\<close>, returns the
  cached slice if there is one, and otherwise releases the mutex, fetches and extracts
  without holding it, and takes it again only to store the result. Each goroutine is a
  program counter \<open>mpc\<close>; the mutex is a flag; the ghost \<open>stores\<close> records every slice
  written to \<open>cache\<close> and \<open>fetches\<close> counts the network fetches. The fetch and the
  extraction are one step, as in the theory \<open>Concurrency\<close>.
\<close>

datatype mpc =
    MStart                                    \<comment> \<open>before \<open>cacheMutex.Lock()\<close> (line 47)\<close>
  | MLocked                                   \<comment> \<open>holds the mutex, checks \<open>cache != nil\<close>\<close>
  | MFetch                                    \<comment> \<open>released the mutex on a miss (line 52)\<close>
  | MFetched "pollen_error + forecast list"   \<comment> \<open>fetch and extraction done (54-112)\<close>
  | MStoring "forecast list"                  \<comment> \<open>holds the mutex to store (115-117)\<close>
  | MDone "pollen_error + forecast list"      \<comment> \<open>returned\<close>

record msys =
  mthreads :: "mpc list"
  mlocked :: bool
  mcache :: "forecast list option"
  stores :: "forecast list list"
  fetches :: nat

definition minit :: msys where
  "minit = \<lparr>mthreads = [], mlocked = False, mcache = None, stores = [], fetches = 0\<rparr>"

definition mset :: "nat \<Rightarrow> mpc \<Rightarrow> msys \<Rightarrow> msys" where
  "mset i p s = s\<lparr>mthreads := (mthreads s)[i := p]\<rparr>"

definition fetch_outcome :: "fetch_result \<Rightarrow> pollen_error + forecast list" where
  "fetch_outcome f = (case f of Inl err \<Rightarrow> Inl (FetchError err) | Inr doc \<Rightarrow> extract_forecasts doc)"

fun holds_mutex :: "mpc \<Rightarrow> bool" where
  "holds_mutex MLocked = True"
| "holds_mutex (MStoring fs) = True"
| "holds_mutex p = False"

inductive mstep :: "msys \<Rightarrow> msys \<Rightarrow> bool" where
  arrive: "mstep s (s\<lparr>mthreads := mthreads s @ [MStart]\<rparr>)"
| lock: "i < length (mthreads s) \<Longrightarrow> mthreads s ! i = MStart \<Longrightarrow> \<not> mlocked s \<Longrightarrow>
    mstep s ((mset i MLocked s)\<lparr>mlocked := True\<rparr>)"
| hit: "i < length (mthreads s) \<Longrightarrow> mthreads s ! i = MLocked \<Longrightarrow> mcache s = Some v \<Longrightarrow>
    mstep s ((mset i (MDone (Inr v)) s)\<lparr>mlocked := False\<rparr>)"
| miss: "i < length (mthreads s) \<Longrightarrow> mthreads s ! i = MLocked \<Longrightarrow> mcache s = None \<Longrightarrow>
    mstep s ((mset i MFetch s)\<lparr>mlocked := False\<rparr>)"
| fetch: "i < length (mthreads s) \<Longrightarrow> mthreads s ! i = MFetch \<Longrightarrow>
    mstep s ((mset i (MFetched (fetch_outcome f)) s)\<lparr>fetches := Suc (fetches s)\<rparr>)"
| fail: "i < length (mthreads s) \<Longrightarrow> mthreads s ! i = MFetched (Inl e) \<Longrightarrow>
    mstep s (mset i (MDone (Inl e)) s)"
| lock_store: "i < length (mthreads s) \<Longrightarrow> mthreads s ! i = MFetched (Inr fs) \<Longrightarrow> \<not> mlocked s \<Longrightarrow>
    mstep s ((mset i (MStoring fs) s)\<lparr>mlocked := True\<rparr>)"
| store: "i < length (mthreads s) \<Longrightarrow> mthreads s ! i = MStoring fs \<Longrightarrow>
    mstep s ((mset i (MDone (Inr fs)) s)\<lparr>mlocked := False, mcache := Some fs,
                                         stores := stores s @ [fs]\<rparr>)"

inductive mreachable :: "msys \<Rightarrow> bool" where
  init: "mreachable minit"
| step: "mreachable s \<Longrightarrow> mstep s s' \<Longrightarrow> mreachable s'"

text \<open>A scheduler that performs one step of a named goroutine, for concrete runs.\<close>

datatype mevent = MArrive | MLock nat | MCheck nat | MDoFetch nat fetch_result | MFinish nat

fun mexec :: "msys \<Rightarrow> mevent \<Rightarrow> msys option" where
  "mexec s MArrive = Some (s\<lparr>mthreads := mthreads s @ [MStart]\<rparr>)"
| "mexec s (MLock i) =
     (if i < length (mthreads s) \<and> \<not> mlocked s then
        (case mthreads s ! i of
           MStart \<Rightarrow> Some ((mset i MLocked s)\<lparr>mlocked := True\<rparr>)
         | MFetched (Inr fs) \<Rightarrow> Some ((mset i (MStoring fs) s)\<lparr>mlocked := True\<rparr>)
         | _ \<Rightarrow> None)
      else None)"
| "mexec s (MCheck i) =
     (if i < length (mthreads s) \<and> mthreads s ! i = MLocked then
        (case mcache s of
           Some v \<Rightarrow> Some ((mset i (MDone (Inr v)) s)\<lparr>mlocked := False\<rparr>)
         | None \<Rightarrow> Some ((mset i MFetch s)\<lparr>mlocked := False\<rparr>))
      else None)"
| "mexec s (MDoFetch i f) =
     (if i < length (mthreads s) \<and> mthreads s ! i = MFetch
      then Some ((mset i (MFetched (fetch_outcome f)) s)\<lparr>fetches := Suc (fetches s)\<rparr>)
      else None)"
| "mexec s (MFinish i) =
     (if i < length (mthreads s) then
        (case mthreads s ! i of
           MFetched (Inl e) \<Rightarrow> Some (mset i (MDone (Inl e)) s)
         | MStoring fs \<Rightarrow> Some ((mset i (MDone (Inr fs)) s)\<lparr>mlocked := False, mcache := Some fs,
                                                          stores := stores s @ [fs]\<rparr>)
         | _ \<Rightarrow> None)
      else None)"

fun mexecs :: "msys \<Rightarrow> mevent list \<Rightarrow> msys option" where
  "mexecs s [] = Some s"
| "mexecs s (e # es) = (case mexec s e of None \<Rightarrow> None | Some s' \<Rightarrow> mexecs s' es)"

text \<open>The mutex flag agrees with the program counters.\<close>

definition mlock_inv :: "msys \<Rightarrow> bool" where
  "mlock_inv s \<longleftrightarrow> length (filter holds_mutex (mthreads s)) = (if mlocked s then 1 else 0)"

text \<open>A goroutine is in flight between its miss and its store. The cache is settled on a
  slice when it holds it, no goroutine is in flight, and every goroutine that has answered
  with a slice, other than those listed in \<open>ts0\<close>, answered with that one.\<close>

fun in_flight :: "mpc \<Rightarrow> bool" where
  "in_flight MFetch = True"
| "in_flight (MFetched r) = True"
| "in_flight (MStoring fs) = True"
| "in_flight p = False"

definition settled :: "forecast list \<Rightarrow> mpc list \<Rightarrow> msys \<Rightarrow> bool" where
  "settled v ts0 s \<longleftrightarrow> mcache s = Some v \<and> (\<forall>p \<in> set (mthreads s). \<not> in_flight p) \<and>
     (\<forall>w. MDone (Inr w) \<in> set (mthreads s) \<longrightarrow> MDone (Inr w) \<in> set ts0 \<or> w = v)"

lemma settled_mset:
  "settled v ts0 s \<Longrightarrow> \<not> in_flight p \<Longrightarrow> (\<forall>w. p = MDone (Inr w) \<longrightarrow> w = v) \<Longrightarrow>
   settled v ts0 (mset i p s)"
  using set_update_subset_insert [of "mthreads s" i p]
  by (auto simp: settled_def mset_def)

subsection \<open>The mutex invariant\<close>

lemma mstep_lock_inv: "mstep s s' \<Longrightarrow> mlock_inv s \<Longrightarrow> mlock_inv s'"
  by (induction rule: mstep.induct)
    (auto simp: mlock_inv_def mset_def length_filter_update_eq split: if_splits)

lemma mreachable_lock_inv: "mreachable s \<Longrightarrow> mlock_inv s"
proof (induction rule: mreachable.induct)
  case init
  then show ?case by (simp add: mlock_inv_def minit_def)
next
  case (step s s')
  then show ?case by (blast intro: mstep_lock_inv)
qed

lemma mexec_step: "mexec s e = Some s' \<Longrightarrow> mstep s s'"
proof (induction s e rule: mexec.induct)
  case (1 s)
  then show ?case by (auto intro: mstep.arrive)
next
  case (2 s i)
  then show ?case
    by (auto split: if_splits mpc.splits sum.splits intro: mstep.lock mstep.lock_store)
next
  case (3 s i)
  then show ?case by (auto split: if_splits option.splits intro: mstep.hit mstep.miss)
next
  case (4 s i f)
  then show ?case by (auto split: if_splits intro: mstep.fetch)
next
  case (5 s i)
  then show ?case by (auto split: if_splits mpc.splits sum.splits intro: mstep.fail mstep.store)
qed

lemma mexecs_reachable: "mreachable s \<Longrightarrow> mexecs s es = Some s' \<Longrightarrow> mreachable s'"
proof (induction es arbitrary: s)
  case (Cons e es)
  then obtain s1 where "mexec s e = Some s1" "mexecs s1 es = Some s'"
    by (auto split: option.splits)
  with Cons.prems(1) Cons.IH show ?case by (blast intro: mreachable.step mexec_step)
qed simp

subsection \<open>Once the cache is set\<close>

lemma settled_mlocked [simp]: "settled v ts0 (s\<lparr>mlocked := b\<rparr>) = settled v ts0 s"
  by (simp add: settled_def)

lemma mset_fields [simp]:
  "mcache (mset i p s) = mcache s" "fetches (mset i p s) = fetches s" "stores (mset i p s) = stores s"
  by (simp_all add: mset_def)

lemma mstep_settled:
  "mstep s s' \<Longrightarrow> settled v ts0 s \<Longrightarrow> settled v ts0 s' \<and> fetches s' = fetches s \<and> stores s' = stores s"
proof (induction rule: mstep.induct)
  case (arrive s)
  then show ?case by (auto simp: settled_def)
next
  case (lock i s)
  then have "settled v ts0 (mset i MLocked s)" by (intro settled_mset) simp_all
  then show ?case by simp
next
  case (hit i s v')
  then have "v' = v" by (simp add: settled_def)
  with hit have "settled v ts0 (mset i (MDone (Inr v')) s)" by (intro settled_mset) simp_all
  then show ?case by simp
next
  case (miss i s)
  then show ?case by (simp add: settled_def)
next
  case (fetch i s f)
  then have "MFetch \<in> set (mthreads s)" by (metis nth_mem)
  with fetch.prems show ?case by (auto simp: settled_def)
next
  case (fail i s e)
  then have "MFetched (Inl e) \<in> set (mthreads s)" by (metis nth_mem)
  with fail.prems show ?case by (auto simp: settled_def)
next
  case (lock_store i s fs)
  then have "MFetched (Inr fs) \<in> set (mthreads s)" by (metis nth_mem)
  with lock_store.prems show ?case by (auto simp: settled_def)
next
  case (store i s fs)
  then have "MStoring fs \<in> set (mthreads s)" by (metis nth_mem)
  with store.prems show ?case by (auto simp: settled_def)
qed

lemma mstep_star_settled:
  "mstep\<^sup>*\<^sup>* s s' \<Longrightarrow> settled v ts0 s \<Longrightarrow>
   settled v ts0 s' \<and> fetches s' = fetches s \<and> stores s' = stores s"
proof (induction rule: rtranclp_induct)
  case base
  then show ?case by simp
next
  case (step y z)
  then show ?case using mstep_settled [of y z v ts0] by simp
qed

lemma mexecs_star: "mexecs s es = Some s' \<Longrightarrow> mstep\<^sup>*\<^sup>* s s'"
proof (induction es arbitrary: s)
  case (Cons e es)
  then obtain s1 where "mexec s e = Some s1" "mexecs s1 es = Some s'"
    by (auto split: option.splits)
  with Cons.IH show ?case by (blast intro: converse_rtranclp_into_rtranclp mexec_step)
qed simp

subsection \<open>Properties of main.go under concurrent requests\<close>

text \<open>C28: the plain mutex of \<open>main.go\<close> does its work: in every reachable state at most
  one request goroutine is between \<open>cacheMutex.Lock()\<close> and \<open>Unlock()\<close>, at the check
  and at the store alike.\<close>

theorem main_mutex_exclusion:
  assumes "mreachable s"
  shows "length (filter holds_mutex (mthreads s)) \<le> 1 \<and>
    (mlocked s \<longleftrightarrow> (\<exists>p \<in> set (mthreads s). holds_mutex p))"
proof -
  have "length (filter holds_mutex (mthreads s)) = (if mlocked s then 1 else 0)"
    using mreachable_lock_inv [OF assms] by (simp add: mlock_inv_def)
  moreover have "(\<exists>p \<in> set (mthreads s). holds_mutex p) \<longleftrightarrow> filter holds_mutex (mthreads s) \<noteq> []"
    by (auto simp: filter_empty_conv)
  ultimately show ?thesis by auto
qed

theorem main_mutex_exclusion_witness:
  "length (filter holds_mutex
     (mthreads (the (mexecs minit [MArrive, MArrive, MLock 0, MCheck 0, MLock 1])))) \<le> 1 \<and>
   mthreads (the (mexecs minit [MArrive, MArrive, MLock 0, MCheck 0, MLock 1])) = [MFetch, MLocked]"
proof -
  let ?s = "the (mexecs minit [MArrive, MArrive, MLock 0, MCheck 0, MLock 1])"
  have e: "mexecs minit [MArrive, MArrive, MLock 0, MCheck 0, MLock 1] = Some ?s"
    by (simp add: minit_def mset_def)
  have r: "mreachable ?s" by (rule mexecs_reachable [OF mreachable.init e])
  have "mthreads ?s = [MFetch, MLocked]" by (simp add: minit_def mset_def)
  with main_mutex_exclusion [OF r] show ?thesis by simp
qed

text \<open>C34: \<open>main.go\<close> starts no refresher. Once its cache holds a slice and no request is
  between its miss and its store, nothing changes it again: in every run from there, under
  any interleaving of any number of new requests, the cache keeps that slice, no request
  fetches or stores, and every request that answers with a slice answers with that one.
  Before that point, misses that overlap can overwrite the cache (C29).\<close>

theorem main_cache_stable:
  assumes "mstep\<^sup>*\<^sup>* s s'" and "mcache s = Some v" and "\<forall>p \<in> set (mthreads s). \<not> in_flight p"
  shows "mcache s' = Some v \<and> fetches s' = fetches s \<and> stores s' = stores s \<and>
    (\<forall>w. MDone (Inr w) \<in> set (mthreads s') \<longrightarrow> MDone (Inr w) \<in> set (mthreads s) \<or> w = v)"
proof -
  have "settled v (mthreads s) s" using assms(2,3) by (simp add: settled_def)
  from mstep_star_settled [OF assms(1) this] show ?thesis by (simp add: settled_def)
qed

theorem main_cache_stable_witness:
  "mcache (the (mexecs \<lparr>mthreads = [], mlocked = False, mcache = Some [], stores = [[]], fetches = 1\<rparr>
      [MArrive, MLock 0, MCheck 0])) = Some [] \<and>
   mthreads (the (mexecs \<lparr>mthreads = [], mlocked = False, mcache = Some [], stores = [[]], fetches = 1\<rparr>
      [MArrive, MLock 0, MCheck 0])) = [MDone (Inr [])]"
proof -
  let ?s = "\<lparr>mthreads = [], mlocked = False, mcache = Some [], stores = [[]], fetches = 1\<rparr>"
  let ?s' = "the (mexecs ?s [MArrive, MLock 0, MCheck 0])"
  have e: "mexecs ?s [MArrive, MLock 0, MCheck 0] = Some ?s'" by (simp add: mset_def)
  have t: "mthreads ?s' = [MDone (Inr [])]" by (simp add: mset_def)
  from main_cache_stable [OF mexecs_star [OF e], of "[]"] t show ?thesis by simp
qed

end
