(* ===== verification/Spec2Isabelle.thy ===== *)
theory Spec2Isabelle
  imports Concurrency Scheduler Router MainConcurrency
begin

text \<open>
  \<^bold>\<open>A verification development of pollen\<close> (dhedegaard/pollen, Go).

  \<^emph>\<open>The program.\<close> A small web service scrapes the pollen forecast page of the Danish
  meteorological institute, extracts one forecast per region, caches the result in memory
  and serves it. The repository holds three versions of \<open>package main\<close>:
  \<^item> \<open>src/main.go\<close>: the handler \<open>fetchParseAndJsonify\<close> fetches and extracts on the
    first request, then serves the cached slice forever (a plain \<open>sync.Mutex\<close>);
  \<^item> \<open>src/unnamed/part_001\<close>: a package-level \<open>cache\<close> behind a \<open>sync.RWMutex\<close>,
    \<open>fetchCache\<close> (read lock; a miss spawns \<open>go rebuildCache()\<close>),
    \<open>refreshCacheJob\<close> (a rebuild every ten minutes) and \<open>rebuildCache\<close> (write lock
    held across fetch and extraction);
  \<^item> \<open>src/unnamed/part_000\<close>: the same with a \<open>cacheTimestamp\<close>, which the two
    handlers \<open>GET /\<close> and \<open>GET /api\<close> report.
  All three share the extraction: \<open>doc.Find("div.tx-dmi-data-store table table")\<close>,
  per block the first and last row's text, and per two-cell row a measurement whose value
  is \<open>strconv.Atoi\<close> of the second cell (\<open>"-"\<close> read as 0); errors are latched in
  the variables \<open>err\<close> and \<open>outerErr\<close> of the two \<open>Each\<close> callbacks.

  \<^emph>\<open>The theories.\<close>
  \<^item> \<open>Pollen_Prelude\<close>: Go's \<open>int\<close> as \<open>int\<close> with the int64 range, the latching of
    an error through a fold (\<open>latches\<close>, \<open>foldl_latched\<close>), list facts on counting
    after an update that the lock invariant uses.
  \<^item> \<open>Dom\<close>: the library calls the extractor makes (goquery/cascadia, modelled from
    their documentation): a document is a forest of \<open>node\<close>s; \<open>find_doc\<close> is
    \<open>Document.Find\<close> of a descendant selector (pre-order, greedy ancestor matching, shown
    equal to the declarative reading in \<open>ancestors_match_iff\<close>); \<open>find_local\<close>,
    \<open>sel_first\<close>, \<open>sel_last\<close>, \<open>sel_text\<close> are \<open>Find\<close>, \<open>First\<close>, \<open>Last\<close>,
    \<open>Text\<close>.
  \<^item> \<open>Atoi\<close>: \<open>strconv.Atoi\<close> for 64-bit \<open>int\<close> as Go's library writes it: the fast
    path for \<open>0 < len s < 19\<close> (bytes as \<open>8 word\<close>, the test \<open>ch -= '0'; ch > 9\<close>
    wrapping), and \<open>ParseInt\<close>/\<open>ParseUint\<close> with the \<open>64 word\<close> accumulator, the
    cutoff \<open>maxUint64/10 + 1\<close>, the wrap test \<open>n1 < n\<close>, and the clamped value of a
    range error. Its lemmas: the result is the decimal value exactly when the string is an
    optionally signed digit string whose value fits int64 (C3), the fast path agrees with
    the slow one (C4), an out-of-range literal gives the nearest bound with \<open>ErrRange\<close>, never a wrapped value (C5), and \<open>Atoi\<close> inverts the decimal
    formatting (C6).
  \<^item> \<open>Extract\<close>: the records \<open>forecast\<close> and \<open>forecastValue\<close>, the two callbacks
    \<open>forecast_step\<close> and \<open>measurement_step\<close> (every guard and early return of the Go
    code, the row appended even when \<open>Atoi\<close> fails), and \<open>extract_forecasts\<close>, their
    fold over the selected blocks (\<open>rebuildCache\<close> lines 122-176 of part_000, the same
    text in part_001 and main.go). A reference extractor written with error values
    (\<open>parse_blocks\<close>) is its specification: C1 equivalence, C2 the closed form of a
    success, C7 when it fails and with which error, C8 the counts.
  \<^item> \<open>Cache\<close>: \<open>cache_state\<close> (\<open>cache\<close> as an option, \<open>nil\<close> being \<open>None\<close>,
    and \<open>cacheTimestamp\<close>); \<open>rebuildCache\<close>, \<open>fetchCache\<close> (part_000),
    \<open>rebuildCache_v1\<close> and \<open>fetchCache_v1\<close> on the state \<open>cache_v1\<close> (part_001),
    \<open>fetchParseAndJsonify\<close> (main.go), each one atomic
    step, the network fetch an input (\<open>fetch_result\<close>). Runs of reads and rebuilds
    (\<open>cache_run\<close>) hold the last successful snapshot (C9); a failed rebuild keeps the last
    known good one (C10); part_000 refines part_001 (C11); main.go's handler is a rebuild
    on a miss and a pure read afterwards (C12).
  \<^item> \<open>Concurrency\<close>: the goroutines of part_000 at the granularity of its lock
    operations, as the inductive relation \<open>step\<close> on \<open>sys\<close> (one program counter
    \<open>pc\<close> per goroutine, the \<open>RWMutex\<close> as a reader count and a writer flag, a ghost
    history \<open>hist\<close> of published snapshots). A handler takes the read lock, checks
    \<open>cache\<close> (a miss appends a rebuild goroutine), releases the lock by its \<open>defer\<close>,
    and reads \<open>cacheTimestamp\<close> afterwards; a rebuild takes the write lock, fetches and
    extracts in one step, stores \<open>cache\<close>, then \<open>cacheTimestamp\<close>, then unlocks.
    \<open>exec_event\<close> is an executable scheduler equal to \<open>step\<close>, used to run
    concrete schedules. The invariants
    \<open>lock_inv\<close> and \<open>data_inv\<close> are proved by rule induction: mutual exclusion (C13),
    a reader always sees the last published snapshot (C14), a reader holding the lock can
    always move (C15).
  \<^item> \<open>Scheduler\<close>: \<open>refreshCacheJob\<close> of part_000 and part_001 over a finite list
    of fetch outcomes, one per loop iteration, with the fatal policy of the code
    (\<open>log.Fatalln\<close> is the status \<open>Exited\<close>). The job exits exactly at the first
    failed rebuild, keeping the last good store (C17); it runs on exactly when every
    rebuild succeeded (C18); the served timestamp is then less than ten minutes old
    (C19); part_000's job refines part_001's (C20).
  \<^item> \<open>Json\<close>: the body of \<open>c.JSON(200, output)\<close>: \<open>json.Marshal\<close> with the struct
    tags of the sources, the HTML-escaping string encoder of \<open>encoding/json\<close> and the
    UTF-8 decoder of \<open>unicode/utf8\<close>, and a client decoder \<open>parse_forecasts\<close>. Decoding
    the body gives the snapshot back when its strings are valid UTF-8 (C21); the body is
    HTML-safe (C22); the round trip needs valid UTF-8, since the encoder replaces an
    invalid byte by U+FFFD.
  \<^item> \<open>Concurrency\<close> also shows that a rebuild holding the write lock finishes and unlocks (C23),
    that any number of cold reads proceed together and all answer \<open>CacheEmpty\<close>
    (C30), that concurrent reads see the same slice (C31), and, by the invariant
    \<open>ts_inv\<close>, that a reported timestamp is always the time of a published rebuild and
    never older than the slice it is sent with (C37).
  \<^item> \<open>GoTime\<close>: \<open>Format(time.RFC3339)\<close> and \<open>Format("15:04:05")\<close> of a UTC time
    in seconds, through the Gregorian calendar (\<open>year_of\<close>, \<open>month_of\<close>); the header
    text reads back to the same second (C24).
  \<^item> \<open>Http\<close>: the handlers \<open>GET /api\<close> and \<open>GET /\<close> of part_000
    (\<open>handler_api\<close>, \<open>handler_index\<close>), of part_001 (\<open>handler_v1\<close>) and of
    \<open>main.go\<close> (\<open>handler_main\<close>), as functions from the store to status, headers and
    body, and the listen address. The \<open>/api\<close> contract (C25), part_001 as part_000 without
    the header (C26), end to end: a client decodes exactly the cached slice and its
    timestamp (C27), and \<open>main.go\<close>'s contract, whose failures reach the client as an
    empty 500 (C32).
  \<^item> \<open>Router\<close>: the three \<open>main\<close> functions as gin engines (\<open>main_v0\<close>,
    \<open>main_v1\<close>, \<open>main_main\<close>: routes, \<open>Static\<close> directories, listen address,
    whether \<open>refreshCacheJob\<close> is started) and the dispatch of a request by method and
    path following gin's defaults (\<open>route\<close>: exact routes, the static catch-all,
    \<open>RedirectTrailingSlash\<close> through \<open>http.Redirect\<close>, the plain-text 404);
    \<open>serve_v0\<close>, \<open>serve_v1\<close>, \<open>serve_main\<close> compose it with the handlers. Only a
    \<open>GET\<close> of a handled path reaches the cache (C33); part_000's static files and
    trailing-slash redirect (C35).
  \<^item> \<open>MainConcurrency\<close>: the request goroutines of \<open>main.go\<close>, whose
    \<open>fetchParseAndJsonify\<close> releases its \<open>sync.Mutex\<close> across the fetch, as the
    inductive relation \<open>mstep\<close>; the mutex invariant by rule induction (C28); since
    \<open>main.go\<close> starts no refresher, once its cache is set and no miss is in flight,
    every run from there keeps the cached slice, fetches nothing and answers every request
    with that slice (C34).
  \<^item> this theory: concrete pages (\<open>scenario_a\<close>, \<open>scenario_b\<close>, \<open>scenario_c\<close>) and
    schedules that witness the hypotheses of the claims; C16: the timestamp that a
    handler reports can belong to a later snapshot than the body it serves, because it is
    read after \<open>RUnlock\<close> (a data race in the Go code); C29: two concurrent misses of
    \<open>main.go\<close> both fetch, and the second overwrites the first's published slice; C36:
    the refresher, the router, the handler and the two codecs compose, so that after the
    start-up rebuilds of part_000 a client of \<open>GET /api\<close> reads the last snapshot
    and its time.

  \<^emph>\<open>Bounds.\<close> Go's \<open>int\<close> is 64 bits on the platforms the service targets, so
  \<open>Atoi\<close> is modelled with \<open>intSize = 64\<close>: fast path below 19 bytes, int64 results.
  The infinite loop of \<open>refreshCacheJob\<close> is run over a finite list of fetch outcomes:
  the list is its fuel, and every property holds for every length. The other loops (the
  \<open>Each\<close> callbacks, the digit loops, the encoders) are structural recursions, folds, or
  \<open>function\<close>s with a measure (\<open>json_chars\<close>, \<open>utf8_valid\<close>, \<open>year_of\<close>,
  \<open>month_of\<close>). The array decoder \<open>parse_tail\<close> takes the input length as fuel,
  enough because each element consumes at least one byte. The interleaving models have
  unboundedly many goroutines; their invariants hold in every reachable state, by rule
  induction, not by bounded exploration. Time is whole seconds since the Unix epoch; in
  \<open>Concurrency\<close> a \<open>tick\<close> step advances it. The zero value of
  \<open>cacheTimestamp\<close> (Go's year 1) is modelled as 0: C37 shows that no response ever
  reports the zero value, so the choice is not observable.

  \<^emph>\<open>Not modelled.\<close> gin's middleware (\<open>Logger\<close>, \<open>Recovery\<close>), its
  server loop (a request is one call of \<open>serve_v0\<close>, \<open>serve_v1\<close> or
  \<open>serve_main\<close>; the interleaving of concurrent requests is the subject of
  \<open>Concurrency\<close> and \<open>MainConcurrency\<close>), \<open>path.Clean\<close> of
  redirect targets and \<open>X-Forwarded-Prefix\<close>; the contents of the \<open>static\<close>
  directory (the file server is a parameter) and the \<open>index.html\<close> template (not in
  the sources: a page is its name and its data); the
  HTML parser and the network (\<open>goquery.NewDocument\<close> is an input of the rebuild);
  logging and the process exit of \<open>log.Fatalln\<close> in the interleaving model (the
  sequential \<open>Scheduler\<close> has it); the text of \<open>strconv.NumError\<close>, which needs
  \<open>strconv.Quote\<close> and Unicode tables (a parameter of \<open>error_text\<close>); sub-second time;
  the ticker's real-time behaviour (a \<open>refresh\<close> step may occur at any time).
\<close>

definition cell :: "string \<Rightarrow> node" where
  "cell t = Element ''td'' [] [TextNode t]"

definition row :: "node list \<Rightarrow> node" where
  "row cs = Element ''tr'' [] cs"

text \<open>A page of the upstream site: the data-store \<open>div\<close> holds an outer table whose
  cells hold the forecast blocks, each an inner table of rows.\<close>

definition forecast_page :: "node list list \<Rightarrow> document" where
  "forecast_page blocks = [Element ''html'' [] [Element ''body'' []
     [Element ''div'' [''tx-dmi-data-store''] [Element ''table'' []
        (map (\<lambda>rs. row [Element ''td'' [] [Element ''table'' [] rs]]) blocks)]]]]"

definition scenario_a :: document where
  "scenario_a = forecast_page
     [[row [cell ''Aarhus''], row [cell ''Birk'', cell ''12''], row [cell ''El'', cell ''-''],
       row [cell ''Lav'']]]"

definition scenario_b :: document where
  "scenario_b = forecast_page
     [[row [cell ''Aarhus''], row [cell ''Birk'', cell ''12''], row [cell ''Lav'']],
      [row [cell ''Odense''], row [cell ''Graes'', cell ''abc''], row [cell ''Moderat'']]]"

definition scenario_c :: document where
  "scenario_c = forecast_page [[row [cell ''Aarhus''], row [cell ''Ingen data'']]]"

text \<open>A schedule of \<open>part_000\<close>'s goroutines: a rebuild publishes the (empty)
  extraction of an empty page; a handler takes the snapshot under the read lock and
  releases it; the clock moves; a second rebuild publishes the extraction of a page with
  one block; only then does the handler read \<open>cacheTimestamp\<close>.\<close>

definition stale_schedule :: "event list" where
  "stale_schedule =
     [ERefresh, ELock 0, EFetch 0 (Inr []), EPublish 0, ESetTs 0, EUnlock 0,
      EArrive, ERLock 1, ECheck 1, ERUnlock 1,
      ETick, ERefresh, ELock 2, EFetch 2 (Inr scenario_c), EPublish 2, ESetTs 2, EUnlock 2,
      EReadTs 1]"

text \<open>Two requests to \<open>main.go\<close> on a cold cache: both see \<open>cache == nil\<close>, both fetch
  (the upstream page changes in between), and both store.\<close>

definition main_schedule :: "mevent list" where
  "main_schedule =
     [MArrive, MArrive, MLock 0, MCheck 0, MLock 1, MCheck 1,
      MDoFetch 0 (Inr []), MDoFetch 1 (Inr scenario_c), MLock 0, MFinish 0, MLock 1, MFinish 1]"

lemmas scenario_defs = scenario_a_def scenario_b_def scenario_c_def forecast_page_def cell_def row_def

theorem extract_forecasts_result_witness:
  "block_ok (hd (forecast_blocks scenario_a)) \<and>
   map forecast_of (forecast_blocks scenario_a) =
     [\<lparr>CityName = ''Aarhus'', ForecastText = ''Lav'',
       Values = [\<lparr>Name = ''Birk'', Value = 12\<rparr>, \<lparr>Name = ''El'', Value = 0\<rparr>]\<rparr>]"
proof -
  have "extract_forecasts scenario_a =
     Inr [\<lparr>CityName = ''Aarhus'', ForecastText = ''Lav'',
           Values = [\<lparr>Name = ''Birk'', Value = 12\<rparr>, \<lparr>Name = ''El'', Value = 0\<rparr>]\<rparr>]"
    by (simp add: scenario_defs extract_eval_simps)
  moreover have "forecast_blocks scenario_a \<noteq> []"
    by (simp add: scenario_defs extract_eval_simps)
  ultimately show ?thesis using extract_forecasts_result by fastforce
qed

theorem extract_forecasts_error_witness:
  "\<exists>r. is_measurement_row r \<and> value_text r = ''abc'' \<and> \<not> value_ok (value_text r)"
proof -
  have "extract_forecasts scenario_b = Inl (ParseValueError ''abc'' (NumError ''Atoi'' ''abc'' ErrSyntax))"
    by (simp add: scenario_defs extract_eval_simps)
  then show ?thesis using extract_forecasts_error by fastforce
qed

theorem extract_forecasts_counts_witness:
  "length (Values ([\<lparr>CityName = ''Aarhus'', ForecastText = ''Ingen data'', Values = []\<rparr>] ! 0)) =
     length (filter is_measurement_row (rows (forecast_blocks scenario_c ! 0)))"
proof -
  have e: "extract_forecasts scenario_c =
      Inr [\<lparr>CityName = ''Aarhus'', ForecastText = ''Ingen data'', Values = []\<rparr>]"
    by (simp add: scenario_defs extract_eval_simps)
  from extract_forecasts_counts [OF e] show ?thesis by simp
qed

theorem rebuildCache_last_known_good_witness:
  "snd (rebuildCache (Inr scenario_b) 10 \<lparr>cache = Some [], cacheTimestamp = 5\<rparr>)
     = \<lparr>cache = Some [], cacheTimestamp = 5\<rparr> \<and>
   extract_forecasts scenario_b = Inl (ParseValueError ''abc'' (NumError ''Atoi'' ''abc'' ErrSyntax))"
proof -
  have x: "extract_forecasts scenario_b = Inl (ParseValueError ''abc'' (NumError ''Atoi'' ''abc'' ErrSyntax))"
    by (simp add: scenario_defs extract_eval_simps)
  then have "fst (rebuildCache (Inr scenario_b) 10 \<lparr>cache = Some [], cacheTimestamp = 5\<rparr>)
      = Some (ParseValueError ''abc'' (NumError ''Atoi'' ''abc'' ErrSyntax))"
    by (simp add: rebuildCache_def)
  from rebuildCache_last_known_good [OF this] show ?thesis by simp
qed

theorem reader_sees_published_witness:
  "last (hist (the (exec_events init_sys
      [ERefresh, ELock 0, EFetch 0 (Inr []), EPublish 0, ESetTs 0, EUnlock 0,
       EArrive, ERLock 1, ECheck 1])))
   = ([], cacheTimestamp (store (the (exec_events init_sys
      [ERefresh, ELock 0, EFetch 0 (Inr []), EPublish 0, ESetTs 0, EUnlock 0,
       EArrive, ERLock 1, ECheck 1]))))"
proof -
  let ?es = "[ERefresh, ELock 0, EFetch 0 (Inr []), EPublish 0, ESetTs 0, EUnlock 0,
       EArrive, ERLock 1, ECheck 1]"
  let ?s = "the (exec_events init_sys ?es)"
  have e: "exec_events init_sys ?es = Some ?s"
    by (simp add: init_sys_def set_pc_def rebuild_outcome_def empty_cache_def extract_eval_simps)
  have r: "reachable ?s" by (rule exec_events_reachable [OF reachable.init e])
  have h: "HHit [] \<in> set (threads ?s)"
    by (simp add: init_sys_def set_pc_def rebuild_outcome_def empty_cache_def extract_eval_simps)
  from reader_sees_published [OF r h] show ?thesis by simp
qed

theorem handler_check_progress_witness:
  "\<exists>s2. exec_events (the (exec_events init_sys [EArrive, ERLock 0])) [ECheck 0, ERUnlock 0] = Some s2
     \<and> threads s2 = [HDoneErr, RStart]"
proof -
  let ?s = "the (exec_events init_sys [EArrive, ERLock 0])"
  have i: "0 < length (threads ?s)" "threads ?s ! 0 = HLocked" "cache (store ?s) = None"
    by (simp_all add: init_sys_def set_pc_def empty_cache_def)
  have t: "threads ?s = [HLocked]" by (simp add: init_sys_def set_pc_def)
  from handler_check_progress [OF i(1,2)] i(3) t show ?thesis by simp
qed

text \<open>C16: the timestamp a handler of \<open>part_000\<close> reports is not that of the snapshot
  it serves: it reads \<open>cacheTimestamp\<close> after releasing the read lock, so a rebuild can
  publish in between, and the response pairs the old body with the new rebuild's time
  (a pair that no rebuild ever published).\<close>

theorem stale_timestamp_response:
  "\<exists>s v t. reachable s \<and> HDone v t \<in> set (threads s) \<and> (v, t) \<notin> set (hist s)"
proof -
  let ?s = "the (exec_events init_sys stale_schedule)"
  have e: "exec_events init_sys stale_schedule = Some ?s"
    by (simp add: stale_schedule_def init_sys_def set_pc_def rebuild_outcome_def empty_cache_def
        scenario_defs extract_eval_simps)
  have r: "reachable ?s" by (rule exec_events_reachable [OF reachable.init e])
  have "HDone [] 1 \<in> set (threads ?s) \<and> ([], 1) \<notin> set (hist ?s)"
    by (simp add: stale_schedule_def init_sys_def set_pc_def rebuild_outcome_def empty_cache_def
        scenario_defs extract_eval_simps)
  with r show ?thesis by blast
qed

text \<open>C29: \<open>main.go\<close> does not serialise its rebuilds: two requests that miss at the same
  time both fetch the page (the mutex is released across the fetch), and the second store
  replaces the slice the first one published, so the cache of \<open>main.go\<close> does change after
  it was first set, and the two clients were served different snapshots.\<close>

theorem main_duplicate_fetches:
  "\<exists>s. mreachable s \<and> fetches s = 2 \<and> length (stores s) = 2 \<and> stores s ! 0 \<noteq> stores s ! 1 \<and>
     mcache s = Some (stores s ! 1) \<and>
     (\<exists>a b. mthreads s = [MDone (Inr a), MDone (Inr b)] \<and> a \<noteq> b)"
proof -
  let ?s = "the (mexecs minit main_schedule)"
  have e: "mexecs minit main_schedule = Some ?s"
    by (simp add: main_schedule_def minit_def mset_def fetch_outcome_def scenario_defs
        extract_eval_simps)
  have r: "mreachable ?s" by (rule mexecs_reachable [OF mreachable.init e])
  have "fetches ?s = 2 \<and> length (stores ?s) = 2 \<and> stores ?s ! 0 \<noteq> stores ?s ! 1 \<and>
     mcache ?s = Some (stores ?s ! 1) \<and>
     (\<exists>a b. mthreads ?s = [MDone (Inr a), MDone (Inr b)] \<and> a \<noteq> b)"
    by (simp add: main_schedule_def minit_def mset_def fetch_outcome_def scenario_defs
        extract_eval_simps)
  with r show ?thesis by blast
qed

text \<open>C36: the parts compose at start-up of part_000: while the refresher runs, after
  any number of successful rebuilds starting at time \<open>t0\<close>, a client of
  \<open>GET /api\<close>, routed by gin and decoding the JSON body and the
  \<open>X-Cache-Timestamp\<close> header, reads exactly the last rebuild's snapshot and the
  time of that rebuild, and the request spawns no further rebuild.\<close>

theorem served_after_refresh:
  assumes "refreshCacheJob t0 outs empty_cache = (st, Running)" and "outs \<noteq> []"
    and "snapshot_utf8 (rebuild_snapshot (last outs))"
  shows "client_api (fst (serve_v0 numerr files env ''GET'' ''/api'' st)) =
      Some (rebuild_snapshot (last outs), t0 + (length outs - 1) * tick_interval) \<and>
    \<not> snd (serve_v0 numerr files env ''GET'' ''/api'' st)"
proof -
  have "st = job_after t0 outs empty_cache" using refreshCacheJob_Running_after [OF assms(1)] by simp
  then have st: "cache st = Some (rebuild_snapshot (last outs))"
      "cacheTimestamp st = t0 + (length outs - 1) * tick_interval"
    using assms(2) by (simp_all add: job_after_def split: list.splits)
  show ?thesis using assms(3)
    by (simp add: serve_v0_api st client_api_def handler_api_def fetchCache_def json_response_def
        content_type_def parse_forecasts_json parse_rfc3339_format)
qed

theorem served_after_refresh_witness:
  "client_api (fst (serve_v0 (\<lambda>_. '''') (\<lambda>_ _. not_found) (\<lambda>_. None) ''GET'' ''/api''
      (fst (refreshCacheJob 0 [Inr scenario_a] empty_cache)))) =
   Some ([\<lparr>CityName = ''Aarhus'', ForecastText = ''Lav'',
           Values = [\<lparr>Name = ''Birk'', Value = 12\<rparr>, \<lparr>Name = ''El'', Value = 0\<rparr>]\<rparr>], 0)"
proof -
  have x: "extract_forecasts scenario_a = Inr [\<lparr>CityName = ''Aarhus'', ForecastText = ''Lav'',
           Values = [\<lparr>Name = ''Birk'', Value = 12\<rparr>, \<lparr>Name = ''El'', Value = 0\<rparr>]\<rparr>]"
    by (simp add: scenario_defs extract_eval_simps)
  have r: "refreshCacheJob 0 [Inr scenario_a] empty_cache =
      (fst (refreshCacheJob 0 [Inr scenario_a] empty_cache), Running)"
    by (simp add: rebuildCache_def x)
  have u: "snapshot_utf8 (rebuild_snapshot (last [Inr scenario_a]))"
    by (simp add: rebuild_snapshot_def x snapshot_utf8_def byte_def)
  show ?thesis using served_after_refresh [OF r _ u, of "\<lambda>_. ''''" "\<lambda>_ _. not_found" "\<lambda>_. None"]
    by (simp add: rebuild_snapshot_def x)
qed

end
